theory Spec2Isabelle
  imports Main "HOL-Library.Word" "HOL-Library.AList"
begin

unbundle bit_operations_syntax

section \<open>JavaScript strings\<close>

text \<open>
  A JavaScript string is a sequence of UTF-16 code units. String literals of the
  source are ASCII and are written through \<open>js\<close>.
\<close>

type_synonym unit16 = "16 word"
type_synonym jsstring = "unit16 list"

definition js :: "string \<Rightarrow> jsstring" where
  "js s = map of_char s"

definition bar :: unit16 where
  "bar = 0x7C"

definition newline :: unit16 where
  "newline = 0x0A"

text \<open>
  \<open>String.prototype.split(sep)\<close> for a separator of one code unit: the pieces between
  the occurrences of the separator, in order; the empty string gives one empty piece.
\<close>

fun split_js :: "unit16 \<Rightarrow> jsstring \<Rightarrow> jsstring list" where
  "split_js d [] = [[]]"
| "split_js d (c # cs) =
     (if c = d then [] # split_js d cs
      else (case split_js d cs of
              [] \<Rightarrow> [[c]]
            | t # ts \<Rightarrow> (c # t) # ts))"

text \<open>\<open>Array.prototype.join(sep)\<close> on strings, for a separator string.\<close>

fun join_js :: "jsstring \<Rightarrow> jsstring list \<Rightarrow> jsstring" where
  "join_js sep [] = []"
| "join_js sep [l] = l"
| "join_js sep (l # m # ls) = l @ sep @ join_js sep (m # ls)"

section \<open>textParse.js: the text-line codec\<close>

text \<open>
  \<open>TextParse.tokenize(raw, delimiter, keepEmpty)\<close>: the loop over the split pieces with
  its accumulator \<open>out\<close>. A piece is skipped when it is empty and \<open>out\<close> is still empty,
  or when it is empty and \<open>keepEmpty\<close> is off.
\<close>

fun tokenize_loop :: "bool \<Rightarrow> jsstring list \<Rightarrow> jsstring list \<Rightarrow> jsstring list" where
  "tokenize_loop keepEmpty [] out = out"
| "tokenize_loop keepEmpty (token # rest) out =
     (if token = [] \<and> out = [] then tokenize_loop keepEmpty rest out
      else if token = [] \<and> \<not> keepEmpty then tokenize_loop keepEmpty rest out
      else tokenize_loop keepEmpty rest (out @ [token]))"

definition tokenize :: "jsstring \<Rightarrow> unit16 \<Rightarrow> bool \<Rightarrow> jsstring list" where
  "tokenize raw delimiter keepEmpty =
     (if raw = [] then [] else tokenize_loop keepEmpty (split_js delimiter raw) [])"

text \<open>The entries of a \<open>TextParse\<close> object: an ordered list of (key, values) pairs.\<close>

type_synonym entry = "jsstring \<times> jsstring list"

fun parse_loop :: "unit16 \<Rightarrow> jsstring list \<Rightarrow> entry list \<Rightarrow> entry list" where
  "parse_loop delimiter [] entries = entries"
| "parse_loop delimiter (line # lines) entries =
     (let tokens = tokenize line delimiter True in
      if length tokens < 2 then parse_loop delimiter lines entries
      else parse_loop delimiter lines (entries @ [(hd tokens, tl tokens)]))"

definition parse :: "jsstring \<Rightarrow> unit16 \<Rightarrow> entry list" where
  "parse raw delimiter =
     (if raw = [] then [] else parse_loop delimiter (split_js newline raw) [])"

text \<open>
  The reading of the specification's sentence on tokenization: one leading empty
  token is dropped, every other token is kept.
\<close>

definition tokenize_drop_one :: "jsstring \<Rightarrow> unit16 \<Rightarrow> jsstring list" where
  "tokenize_drop_one raw delimiter =
     (case split_js delimiter raw of
        [] \<Rightarrow> []
      | t # ts \<Rightarrow> if t = [] then ts else t # ts)"

section \<open>worldState.js: the spawned participants\<close>

text \<open>
  The payload of \<open>parseOnSpawn\<close>, stored by \<open>WorldState.onSpawn\<close>. The map \<open>players\<close> is
  keyed by net-id; \<open>localNetId\<close> is \<open>-1\<close> in the constructor and after \<open>clear\<close>.
\<close>

record participant =
  spawn :: jsstring
  netId :: int
  userId :: int
  name :: jsstring
  ptype :: jsstring

record world_state =
  players :: "int \<rightharpoonup> participant"
  localNetId :: int

definition world_init :: world_state where
  "world_init = \<lparr>players = Map.empty, localNetId = -1\<rparr>"

definition clear :: "world_state \<Rightarrow> world_state" where
  "clear w = w\<lparr>players := Map.empty, localNetId := -1\<rparr>"

definition onSpawn :: "participant \<Rightarrow> world_state \<Rightarrow> world_state" where
  "onSpawn payload w =
     (if netId payload < 0 then w
      else
        (let w1 = w\<lparr>players := (players w)(netId payload \<mapsto> payload)\<rparr> in
         if ptype payload = js ''local'' then w1\<lparr>localNetId := netId payload\<rparr> else w1))"

definition onRemove :: "int \<Rightarrow> world_state \<Rightarrow> world_state" where
  "onRemove n w =
     (if n < 0 then w
      else
        (let w1 = w\<lparr>players := (players w)(n := None)\<rparr> in
         if localNetId w1 = n then w1\<lparr>localNetId := -1\<rparr> else w1))"

datatype world_op = Spawn participant | Remove int | Clear

fun world_step :: "world_state \<Rightarrow> world_op \<Rightarrow> world_state" where
  "world_step w (Spawn p) = onSpawn p w"
| "world_step w (Remove n) = onRemove n w"
| "world_step w Clear = clear w"

definition world_run :: "world_op list \<Rightarrow> world_state" where
  "world_run ops = foldl world_step world_init ops"

text \<open>No participant of type \<open>local\<close> is known.\<close>

definition no_local :: "world_state \<Rightarrow> bool" where
  "no_local w = (\<forall>n. case players w n of None \<Rightarrow> True | Some p \<Rightarrow> ptype p \<noteq> js ''local'')"

section \<open>taskScheduler.js: tagged delayed callbacks\<close>

text \<open>
  The scheduler's own state is the map \<open>tasksByTag\<close> from tag to timer handle. Its
  timers live in the event loop: \<open>timers\<close> holds the timers that \<open>setTimeout\<close> created
  and that have neither fired nor been cleared, each with the tag and the callback its
  closure captured. \<open>setTimeout\<close> returns a fresh handle (\<open>nextId\<close>); a handle is an
  object, so it is never falsy. \<open>fired\<close> logs the callbacks that were run, with the handle
  of the timer that ran them.
\<close>

record 'cb scheduler =
  tasksByTag :: "(jsstring \<times> nat) list"
  timers :: "nat \<rightharpoonup> (jsstring \<times> 'cb)"
  nextId :: nat
  fired :: "(nat \<times> 'cb) list"

definition scheduler_init :: "'cb scheduler" where
  "scheduler_init = \<lparr>tasksByTag = [], timers = Map.empty, nextId = 1, fired = []\<rparr>"

definition clearTimeout :: "nat \<Rightarrow> 'cb scheduler \<Rightarrow> 'cb scheduler" where
  "clearTimeout tid s = s\<lparr>timers := (timers s)(tid := None)\<rparr>"

definition cancelByTag :: "jsstring \<Rightarrow> 'cb scheduler \<Rightarrow> bool \<times> 'cb scheduler" where
  "cancelByTag tag s =
     (case map_of (tasksByTag s) tag of
        None \<Rightarrow> (False, s)
      | Some timeoutId \<Rightarrow>
          (let s1 = clearTimeout timeoutId s in
           (True, s1\<lparr>tasksByTag := AList.delete tag (tasksByTag s1)\<rparr>)))"

definition scheduleDelayed ::
  "'cb \<Rightarrow> nat \<Rightarrow> jsstring \<Rightarrow> 'cb scheduler \<Rightarrow> nat \<times> 'cb scheduler" where
  "scheduleDelayed callback delayMs tag s =
     (let s1 = (if tag \<noteq> [] then snd (cancelByTag tag s) else s);
          timeoutId = nextId s1;
          s2 = s1\<lparr>timers := (timers s1)(timeoutId \<mapsto> (tag, callback)),
                  nextId := Suc timeoutId\<rparr>;
          s3 = (if tag \<noteq> [] then s2\<lparr>tasksByTag := AList.update tag timeoutId (tasksByTag s2)\<rparr>
                else s2)
      in (timeoutId, s3))"

definition cancelAll :: "'cb scheduler \<Rightarrow> 'cb scheduler" where
  "cancelAll s = (fold clearTimeout (map snd (tasksByTag s)) s)\<lparr>tasksByTag := []\<rparr>"

text \<open>
  The event loop fires a pending timer: the closure of \<open>scheduleDelayed\<close> deletes its
  tag from the map (when the tag is non-empty) and runs the callback, whose exceptions
  are swallowed. A timer that is not pending (cleared, or fired before) does nothing.
\<close>

definition fire :: "nat \<Rightarrow> 'cb scheduler \<Rightarrow> 'cb scheduler" where
  "fire tid s =
     (case timers s tid of
        None \<Rightarrow> s
      | Some (tag, callback) \<Rightarrow>
          (let s1 = s\<lparr>timers := (timers s)(tid := None)\<rparr>;
               s2 = (if tag \<noteq> [] then s1\<lparr>tasksByTag := AList.delete tag (tasksByTag s1)\<rparr> else s1)
           in s2\<lparr>fired := fired s2 @ [(tid, callback)]\<rparr>))"

text \<open>
  What can happen to a scheduler: a call of one of its three methods (from the program
  or from inside a callback, which runs after its own timer was removed), or the event
  loop firing a timer. Delays are not modelled: any pending timer may fire next.
\<close>

datatype 'cb sched_event =
  Schedule 'cb nat jsstring
  | CancelByTag jsstring
  | CancelAll
  | Fire nat

fun sched_step :: "'cb scheduler \<Rightarrow> 'cb sched_event \<Rightarrow> 'cb scheduler" where
  "sched_step s (Schedule cb d tag) = snd (scheduleDelayed cb d tag s)"
| "sched_step s (CancelByTag tag) = snd (cancelByTag tag s)"
| "sched_step s CancelAll = cancelAll s"
| "sched_step s (Fire tid) = fire tid s"

definition sched_run :: "'cb scheduler \<Rightarrow> 'cb sched_event list \<Rightarrow> 'cb scheduler" where
  "sched_run s es = foldl sched_step s es"

text \<open>The pending timers that carry a given tag.\<close>

definition pending_with_tag :: "'cb scheduler \<Rightarrow> jsstring \<Rightarrow> nat set" where
  "pending_with_tag s tag = {tid. \<exists>cb. timers s tid = Some (tag, cb)}"

text \<open>
  The invariant of the reachable states: every handle in use is below \<open>nextId\<close>, and
  a pending timer with a non-empty tag is the one the map holds for that tag.
\<close>

definition sched_inv :: "'cb scheduler \<Rightarrow> bool" where
  "sched_inv s =
     ((\<forall>tid tag cb. timers s tid = Some (tag, cb) \<longrightarrow> tid < nextId s)
      \<and> (\<forall>tid tag cb. timers s tid = Some (tag, cb) \<longrightarrow> tag \<noteq> [] \<longrightarrow>
             map_of (tasksByTag s) tag = Some tid)
      \<and> (\<forall>tid cb. (tid, cb) \<in> set (fired s) \<longrightarrow> tid < nextId s))"

text \<open>A handle that is not pending, was issued before, and has never fired.\<close>

definition dead :: "nat \<Rightarrow> 'cb scheduler \<Rightarrow> bool" where
  "dead t s = (timers s t = None \<and> t < nextId s \<and> t \<notin> fst ` set (fired s))"

section \<open>commandRegistry.js: command parsing and dispatch\<close>

text \<open>
  The white space of ECMAScript (\<open>WhiteSpace\<close> and \<open>LineTerminator\<close>), which both
  \<open>trim\<close> and the regular expression class \<open>\s\<close> use.
\<close>

definition isWhiteSpace :: "unit16 \<Rightarrow> bool" where
  "isWhiteSpace u =
     (u = 0x09 \<or> u = 0x0A \<or> u = 0x0B \<or> u = 0x0C \<or> u = 0x0D \<or> u = 0x20 \<or> u = 0xA0
      \<or> u = 0x1680 \<or> (0x2000 \<le> u \<and> u \<le> 0x200A) \<or> u = 0x2028 \<or> u = 0x2029
      \<or> u = 0x202F \<or> u = 0x205F \<or> u = 0x3000 \<or> u = 0xFEFF)"

definition trimStart :: "jsstring \<Rightarrow> jsstring" where
  "trimStart s = dropWhile isWhiteSpace s"

definition trimEnd :: "jsstring \<Rightarrow> jsstring" where
  "trimEnd s = rev (dropWhile isWhiteSpace (rev s))"

definition trim :: "jsstring \<Rightarrow> jsstring" where
  "trim s = trimEnd (trimStart s)"

text \<open>
  \<open>normalizeInput\<close>: every code unit in the range 0x00 to 0x1F is removed, then one
  leading U+FEFF, then the leading white space.
\<close>

definition normalizeInput :: "jsstring \<Rightarrow> jsstring" where
  "normalizeInput text =
     (let noControl = filter (\<lambda>u. \<not> u \<le> 0x1F) text;
          noBom = (case noControl of
                     [] \<Rightarrow> []
                   | u # rest \<Rightarrow> if u = 0xFEFF then rest else u # rest)
      in trimStart noBom)"

text \<open>\<open>String.prototype.startsWith\<close>\<close>

fun startsWith :: "jsstring \<Rightarrow> jsstring \<Rightarrow> bool" where
  "startsWith s [] = True"
| "startsWith [] (p # ps) = False"
| "startsWith (c # cs) (p # ps) = (c = p \<and> startsWith cs ps)"



text \<open>
  What a handler does when it is called: it returns, or it throws. The catch block of
  \<open>execute\<close> reads \<open>error.message\<close>, which exists on every thrown value but \<open>null\<close> and
  \<open>undefined\<close>; \<open>Value m\<close> is a thrown value on which that reading gives the text \<open>m\<close>.
\<close>

datatype thrown = Value jsstring | Nullish

datatype outcome = Returns | Throws thrown

record handler_context =
  args :: "jsstring list"
  rawInput :: jsstring
  commandName :: jsstring

record command =
  cname :: jsstring
  description :: jsstring
  handler :: "handler_context \<Rightarrow> outcome"

text \<open>
  The registry: its prefix and the map \<open>commands\<close>. \<open>String.prototype.toLowerCase\<close> is
  the Unicode case mapping of the runtime; the functions that call it take it as the
  parameter \<open>lower\<close>.
\<close>

record registry =
  prefix :: jsstring
  commands :: "(jsstring \<times> command) list"

definition setPrefix :: "jsstring \<Rightarrow> registry \<Rightarrow> registry" where
  "setPrefix p reg = (if length p = 1 then reg\<lparr>prefix := p\<rparr> else reg)"



definition isCommand :: "registry \<Rightarrow> jsstring \<Rightarrow> bool" where
  "isCommand reg text = startsWith (normalizeInput text) (prefix reg)"











section \<open>textParse.js: the methods of a TextParse object\<close>

text \<open>\<open>add\<close>, \<open>set\<close>, \<open>remove\<close>, \<open>get\<close>, \<open>contains\<close>, \<open>empty\<close> on the list of entries.\<close>

definition tp_add :: "jsstring \<Rightarrow> jsstring list \<Rightarrow> entry list \<Rightarrow> entry list" where
  "tp_add key vals entries = entries @ [(key, vals)]"


definition tp_contains :: "entry list \<Rightarrow> jsstring \<Rightarrow> bool" where
  "tp_contains entries target = (\<exists>e \<in> set entries. fst e = target)"



definition tp_get :: "entry list \<Rightarrow> jsstring \<Rightarrow> nat \<Rightarrow> jsstring" where
  "tp_get entries target idx =
     (case find (\<lambda>e. fst e = target) entries of
        None \<Rightarrow> []
      | Some found \<Rightarrow> if idx \<ge> length (snd found) then [] else snd found ! idx)"


text \<open>
  \<open>Number.parseInt(value, 10)\<close>: leading white space, an optional sign, then the
  longest run of decimal digits; \<open>None\<close> is \<open>NaN\<close>. The model returns the exact
  integer, which the source has up to \<open>2^53\<close>.
\<close>

definition isDigit :: "unit16 \<Rightarrow> bool" where
  "isDigit u = (0x30 \<le> u \<and> u \<le> 0x39)"

definition digitsValue :: "jsstring \<Rightarrow> int" where
  "digitsValue ds = foldl (\<lambda>a d. 10 * a + (uint d - 0x30)) 0 ds"

definition parseInt10 :: "jsstring \<Rightarrow> int option" where
  "parseInt10 s =
     (let t = trimStart s;
          negative = (t \<noteq> [] \<and> hd t = 0x2D);
          r = (if t \<noteq> [] \<and> (hd t = 0x2D \<or> hd t = 0x2B) then tl t else t);
          ds = takeWhile isDigit r
      in if ds = [] then None
         else Some (if negative then - digitsValue ds else digitsValue ds))"

definition tp_getInt :: "entry list \<Rightarrow> jsstring \<Rightarrow> nat \<Rightarrow> int \<Rightarrow> int" where
  "tp_getInt entries target idx fallback =
     (let v = tp_get entries target idx in
      if v = [] then fallback
      else (case parseInt10 v of None \<Rightarrow> fallback | Some parsed \<Rightarrow> parsed))"



section \<open>proxyCore.js: rewriting the bootstrap response\<close>

















section \<open>Example inputs for the bootstrap rewrite\<close>





section \<open>packet.js: buffers and the values of the variant layer\<close>

type_synonym byte = "8 word"
type_synonym buffer = "byte list"

text \<open>\<open>buffer.readUInt32LE(pos)\<close> on the bytes from \<open>pos\<close> on, and \<open>writeUInt32LE\<close>.\<close>

definition readUInt32LE :: "buffer \<Rightarrow> 32 word" where
  "readUInt32LE bs =
     ucast (bs ! 0) OR push_bit 8 (ucast (bs ! 1)) OR push_bit 16 (ucast (bs ! 2))
       OR push_bit 24 (ucast (bs ! 3))"

definition writeUInt32LE :: "32 word \<Rightarrow> buffer" where
  "writeUInt32LE v = [ucast v, ucast (drop_bit 8 v), ucast (drop_bit 16 v), ucast (drop_bit 24 v)]"

text \<open>
  A JavaScript number: one with an integral value (\<open>Number.isInteger\<close>), a finite one
  that is not integral, or one of the three non-finite values. The finite non-integral
  numbers are left abstract (\<open>'f\<close>); the model does not tell \<open>-0\<close> from \<open>0\<close>.
\<close>

datatype 'f jsnum = JInt int | JFrac 'f | JNaN | JPosInf | JNegInf

text \<open>
  The values that variant arguments take: strings, numbers, arrays of numbers, and
  \<open>undefined\<close> (also the holes of a sparse array, and \<open>null\<close>, which this code never
  tells from \<open>undefined\<close>).
\<close>

datatype 'f jsval = VStr jsstring | VNum "'f jsnum" | VArr "'f jsnum list" | VUndefined

text \<open>
  What the code takes from the runtime, as parameters: the UTF-8 codec of \<open>Buffer\<close>
  (\<open>Buffer.from(s, "utf8")\<close>, \<open>buf.toString("utf8")\<close>), the conversions between a number
  and the 32 bits of its IEEE 754 single-precision rounding (\<open>writeFloatLE\<close> and
  \<open>readFloatLE\<close> store and load these bits little-endian), the decimal text of a finite
  number (\<open>String(x)\<close>), the number a string denotes (\<open>Number(s)\<close>), and the integer
  part of a finite non-integral number (for \<open>x >>> 0\<close> and \<open>x | 0\<close>).
\<close>

record 'f runtime =
  utf8_encode :: "jsstring \<Rightarrow> buffer"
  utf8_decode :: "buffer \<Rightarrow> jsstring"
  toFloat32 :: "'f jsnum \<Rightarrow> 32 word"
  fromFloat32 :: "32 word \<Rightarrow> 'f jsnum"
  finiteToString :: "'f jsnum \<Rightarrow> jsstring"
  stringToNumber :: "jsstring \<Rightarrow> 'f jsnum"
  integerPart :: "'f \<Rightarrow> int"

definition UINT32_MAX :: int where "UINT32_MAX = 0xffffffff"
definition INT32_MIN :: int where "INT32_MIN = - 0x80000000"
definition INT32_MAX :: int where "INT32_MAX = 0x7fffffff"

definition FLOAT :: byte where "FLOAT = 1"
definition STRING :: byte where "STRING = 2"
definition VEC2 :: byte where "VEC2 = 3"
definition VEC3 :: byte where "VEC3 = 4"
definition UNSIGNED :: byte where "UNSIGNED = 5"
definition SIGNED :: byte where "SIGNED = 9"

text \<open>\<open>String(x)\<close> for a number.\<close>

definition numberToString :: "'f runtime \<Rightarrow> 'f jsnum \<Rightarrow> jsstring" where
  "numberToString rt x =
     (case x of
        JNaN \<Rightarrow> js ''NaN''
      | JPosInf \<Rightarrow> js ''Infinity''
      | JNegInf \<Rightarrow> js ''-Infinity''
      | _ \<Rightarrow> finiteToString rt x)"

text \<open>
  \<open>Number(v)\<close>. An array converts through its text: the empty array gives 0, an array of
  one number that number, a longer one \<open>NaN\<close>.
\<close>

definition toNumber :: "'f runtime \<Rightarrow> 'f jsval \<Rightarrow> 'f jsnum" where
  "toNumber rt v =
     (case v of
        VStr s \<Rightarrow> stringToNumber rt s
      | VNum x \<Rightarrow> x
      | VArr xs \<Rightarrow> (case xs of [] \<Rightarrow> JInt 0 | [x] \<Rightarrow> x | _ \<Rightarrow> JNaN)
      | VUndefined \<Rightarrow> JNaN)"

text \<open>\<open>x || 0\<close> on a number: \<open>NaN\<close> and zero are falsy.\<close>

definition orZero :: "'f jsnum \<Rightarrow> 'f jsnum" where
  "orZero x = (case x of JNaN \<Rightarrow> JInt 0 | _ \<Rightarrow> x)"

section \<open>packet.js: decoding a variant list\<close>

record 'f variant_entry =
  e_index :: byte
  e_type :: byte
  e_value :: "'f jsval"
  e_encoded :: "buffer option"

text \<open>
  One turn of the loop of \<open>parseVariantEntries\<close>, on the bytes from \<open>pos\<close> on: the entry
  read and the bytes after it, or \<open>None\<close> where the source returns \<open>null\<close>. The test
  \<open>pos + n > extraBuffer.length\<close> of the source is \<open>length rest < n\<close> here.
\<close>

definition parseEntry :: "'f runtime \<Rightarrow> buffer \<Rightarrow> ('f variant_entry \<times> buffer) option" where
  "parseEntry rt rest =
     (if length rest < 2 then None
      else
        (let index = rest ! 0; type = rest ! 1; body = drop 2 rest in
         if type = FLOAT then
           (if length body < 4 then None
            else Some (\<lparr>e_index = index, e_type = type,
                         e_value = VNum (fromFloat32 rt (readUInt32LE body)),
                         e_encoded = Some (take 6 rest)\<rparr>, drop 4 body))
         else if type = STRING then
           (if length body < 4 then None
            else
              (let strLen = unat (readUInt32LE body); text = drop 4 body in
               if length text < strLen then None
               else Some (\<lparr>e_index = index, e_type = type,
                            e_value = VStr (utf8_decode rt (take strLen text)),
                            e_encoded = Some (take (6 + strLen) rest)\<rparr>, drop strLen text)))
         else if type = VEC2 then
           (if length body < 8 then None
            else Some (\<lparr>e_index = index, e_type = type,
                         e_value = VArr [fromFloat32 rt (readUInt32LE body),
                                         fromFloat32 rt (readUInt32LE (drop 4 body))],
                         e_encoded = Some (take 10 rest)\<rparr>, drop 8 body))
         else if type = VEC3 then
           (if length body < 12 then None
            else Some (\<lparr>e_index = index, e_type = type,
                         e_value = VArr [fromFloat32 rt (readUInt32LE body),
                                         fromFloat32 rt (readUInt32LE (drop 4 body)),
                                         fromFloat32 rt (readUInt32LE (drop 8 body))],
                         e_encoded = Some (take 14 rest)\<rparr>, drop 12 body))
         else if type = UNSIGNED then
           (if length body < 4 then None
            else Some (\<lparr>e_index = index, e_type = type,
                         e_value = VNum (JInt (uint (readUInt32LE body))),
                         e_encoded = Some (take 6 rest)\<rparr>, drop 4 body))
         else if type = SIGNED then
           (if length body < 4 then None
            else Some (\<lparr>e_index = index, e_type = type,
                         e_value = VNum (JInt (sint (readUInt32LE body))),
                         e_encoded = Some (take 6 rest)\<rparr>, drop 4 body))
         else None))"

fun parseEntries ::
  "'f runtime \<Rightarrow> nat \<Rightarrow> buffer \<Rightarrow> 'f variant_entry list \<Rightarrow> 'f variant_entry list option" where
  "parseEntries rt 0 rest entries = Some entries"
| "parseEntries rt (Suc n) rest entries =
     (case parseEntry rt rest of
        None \<Rightarrow> None
      | Some (e, rest') \<Rightarrow> parseEntries rt n rest' (entries @ [e]))"

text \<open>The result \<open>{count, entries}\<close> is a pair; \<open>None\<close> is \<open>null\<close>.\<close>

definition parseVariantEntries ::
  "'f runtime \<Rightarrow> buffer \<Rightarrow> (nat \<times> 'f variant_entry list) option" where
  "parseVariantEntries rt extraBuffer =
     (if extraBuffer = [] then Some (0, [])
      else
        (let count = unat (hd extraBuffer) in
         case parseEntries rt count (tl extraBuffer) [] of
           None \<Rightarrow> None
         | Some entries \<Rightarrow> Some (count, entries)))"

text \<open>
  \<open>args[i] = v\<close> on a JavaScript array: an index beyond the end extends the array, and
  the places in between are holes, which read as \<open>undefined\<close>.
\<close>

definition array_set :: "'f jsval list \<Rightarrow> nat \<Rightarrow> 'f jsval \<Rightarrow> 'f jsval list" where
  "array_set xs i v =
     (if i < length xs then xs[i := v]
      else xs @ replicate (i - length xs) VUndefined @ [v])"

text \<open>\<open>args[i]\<close>: \<open>undefined\<close> beyond the end.\<close>

definition array_get :: "'f jsval list \<Rightarrow> nat \<Rightarrow> 'f jsval" where
  "array_get xs i = (if i < length xs then xs ! i else VUndefined)"

definition parseVariantArgs :: "'f runtime \<Rightarrow> buffer \<Rightarrow> 'f jsval list" where
  "parseVariantArgs rt extraBuffer =
     (case parseVariantEntries rt extraBuffer of
        None \<Rightarrow> []
      | Some (count, entries) \<Rightarrow>
          foldl (\<lambda>args e. array_set args (unat (e_index e)) (e_value e)) [] entries)"

text \<open>
  The bytes left when the walk reaches the \<open>k\<close>-th declared entry, if the entries
  before it were read.
\<close>

fun entry_rest :: "'f runtime \<Rightarrow> nat \<Rightarrow> buffer \<Rightarrow> buffer option" where
  "entry_rest rt 0 rest = Some rest"
| "entry_rest rt (Suc k) rest =
     (case parseEntry rt rest of
        None \<Rightarrow> None
      | Some (e, rest') \<Rightarrow> entry_rest rt k rest')"

text \<open>
  The ways an entry can be malformed, in the specification's words: its two header
  bytes, its payload or its string bytes would extend past the end of the buffer, or
  its type tag is not one of the six known tags.
\<close>

definition payload_size :: "byte \<Rightarrow> nat" where
  "payload_size type =
     (if type = VEC2 then 8 else if type = VEC3 then 12 else 4)"

definition known_tag :: "byte \<Rightarrow> bool" where
  "known_tag type =
     (type = FLOAT \<or> type = STRING \<or> type = VEC2 \<or> type = VEC3 \<or> type = UNSIGNED \<or> type = SIGNED)"

definition malformed :: "buffer \<Rightarrow> bool" where
  "malformed rest =
     (length rest < 2
      \<or> \<not> known_tag (rest ! 1)
      \<or> length rest < 2 + payload_size (rest ! 1)
      \<or> (rest ! 1 = STRING \<and> length rest < 6 + unat (readUInt32LE (drop 2 rest))))"

text \<open>
  A runtime for the examples. They use ASCII text, whose UTF-8 encoding has one byte
  per code unit, and the numbers 0, 1, \<open>NaN\<close> and the infinities, whose
  single-precision bits are tabulated; the conversions are not used elsewhere, and the
  texts of finite numbers, the numbers of strings and the integer parts are not used
  at all.
\<close>

definition example_toFloat32 :: "unit jsnum \<Rightarrow> 32 word" where
  "example_toFloat32 x =
     (case x of
        JInt i \<Rightarrow> if i = 1 then 0x3F800000 else 0
      | JFrac f \<Rightarrow> 0
      | JNaN \<Rightarrow> 0x7FC00000
      | JPosInf \<Rightarrow> 0x7F800000
      | JNegInf \<Rightarrow> 0xFF800000)"

definition example_fromFloat32 :: "32 word \<Rightarrow> unit jsnum" where
  "example_fromFloat32 w =
     (if w = 0x3F800000 then JInt 1
      else if w = 0x7FC00000 then JNaN
      else if w = 0x7F800000 then JPosInf
      else if w = 0xFF800000 then JNegInf
      else JInt 0)"

definition example_runtime :: "unit runtime" where
  "example_runtime =
     \<lparr>utf8_encode = map ucast, utf8_decode = map ucast,
      toFloat32 = example_toFloat32, fromFloat32 = example_fromFloat32,
      finiteToString = (\<lambda>x. []), stringToNumber = (\<lambda>s. JNaN),
      integerPart = (\<lambda>f. 0)\<rparr>"

section \<open>packet.js: encoding a variant list\<close>

datatype error = RangeError | TankHeaderTooShort

text \<open>
  The header and bytes of a STRING entry. \<open>header.writeUInt32LE(length, 1)\<close> raises a
  \<open>RangeError\<close> for a length above \<open>2^32 - 1\<close>.
\<close>

definition stringChunk :: "buffer \<Rightarrow> error + buffer" where
  "stringChunk strBuffer =
     (if int (length strBuffer) \<le> UINT32_MAX
      then Inr (STRING # writeUInt32LE (of_nat (length strBuffer)) @ strBuffer)
      else Inl RangeError)"

text \<open>
  What one turn of the loop of \<open>encodeVariantArgs\<close> pushes after the index byte: the
  type tag and the payload, chosen from the value.
\<close>

definition encodeValue :: "'f runtime \<Rightarrow> 'f jsval \<Rightarrow> error + buffer" where
  "encodeValue rt v =
     (case v of
        VStr s \<Rightarrow> stringChunk (utf8_encode rt s)
      | VNum x \<Rightarrow>
          (case x of
             JInt i \<Rightarrow>
               if 0 \<le> i \<and> i \<le> UINT32_MAX then Inr (UNSIGNED # writeUInt32LE (word_of_int i))
               else if INT32_MIN \<le> i \<and> i \<le> INT32_MAX
                 then Inr (SIGNED # writeUInt32LE (word_of_int i))
               else stringChunk (utf8_encode rt (numberToString rt x))
           | JFrac f \<Rightarrow> Inr (FLOAT # writeUInt32LE (toFloat32 rt x))
           | _ \<Rightarrow> stringChunk (utf8_encode rt (numberToString rt x)))
      | VArr xs \<Rightarrow>
          if 2 \<le> length xs \<and> length xs \<le> 3
          then Inr ((if length xs = 2 then VEC2 else VEC3)
                    # concat (map (\<lambda>x. writeUInt32LE (toFloat32 rt (orZero x))) xs))
          else Inr (STRING # writeUInt32LE 0)
      | VUndefined \<Rightarrow> Inr (STRING # writeUInt32LE 0))"

fun encodeLoop :: "'f runtime \<Rightarrow> nat \<Rightarrow> 'f jsval list \<Rightarrow> error + buffer" where
  "encodeLoop rt i [] = Inr []"
| "encodeLoop rt i (v # vs) =
     (case encodeValue rt v of
        Inl err \<Rightarrow> Inl err
      | Inr chunk \<Rightarrow>
          (case encodeLoop rt (Suc i) vs of
             Inl err \<Rightarrow> Inl err
           | Inr chunks \<Rightarrow> Inr (of_nat i # chunk @ chunks)))"

text \<open>\<open>Buffer.from([n])\<close> keeps the low eight bits of \<open>n\<close>, as \<open>of_nat\<close> into a byte does.\<close>

definition encodeVariantArgs :: "'f runtime \<Rightarrow> 'f jsval list \<Rightarrow> error + buffer" where
  "encodeVariantArgs rt normalized =
     (case encodeLoop rt 0 normalized of
        Inl err \<Rightarrow> Inl err
      | Inr chunks \<Rightarrow> Inr (of_nat (length normalized) # chunks))"

text \<open>
  A value as it comes back from the wire: the same value, read through the payload
  codec. An integer is unchanged; a string is the decoding of its UTF-8 bytes; a
  finite non-integral number and each component of a vector (after \<open>|| 0\<close>) is the
  number that its single-precision bits denote.
\<close>

definition reread :: "'f runtime \<Rightarrow> 'f jsval \<Rightarrow> 'f jsval" where
  "reread rt v =
     (case v of
        VStr s \<Rightarrow> VStr (utf8_decode rt (utf8_encode rt s))
      | VNum x \<Rightarrow> (case x of JFrac f \<Rightarrow> VNum (fromFloat32 rt (toFloat32 rt x)) | _ \<Rightarrow> VNum x)
      | VArr xs \<Rightarrow> VArr (map (\<lambda>x. fromFloat32 rt (toFloat32 rt (orZero x))) xs)
      | VUndefined \<Rightarrow> VUndefined)"

text \<open>
  The entries of the round-trip claim: strings (whose UTF-8 text fits a 32-bit
  length), integers from \<open>-2^31\<close> to \<open>2^32 - 1\<close>, finite non-integral numbers, and
  vectors of two or three numbers.
\<close>

definition roundtrip_entry :: "'f runtime \<Rightarrow> 'f jsval \<Rightarrow> bool" where
  "roundtrip_entry rt v =
     (case v of
        VStr s \<Rightarrow> int (length (utf8_encode rt s)) \<le> UINT32_MAX
      | VNum x \<Rightarrow> (case x of JInt i \<Rightarrow> INT32_MIN \<le> i \<and> i \<le> UINT32_MAX | JFrac f \<Rightarrow> True | _ \<Rightarrow> False)
      | VArr xs \<Rightarrow> length xs = 2 \<or> length xs = 3
      | VUndefined \<Rightarrow> False)"

section \<open>packet.js: frames\<close>

datatype packet_id =
  ServerHello | Quit | QuitToExit | JoinRequest | ValidateWorld | Input | Log | Disconnect
  | OnSendToServer | OnSpawn | OnRemove | OnNameChanged | OnChangeSkin | Unknown

definition CALL_FUNCTION :: byte where "CALL_FUNCTION = 1"
definition DISCONNECT :: byte where "DISCONNECT = 26"

text \<open>
  The lookups \<open>ACTION_PACKET_MAP[action] ?? Unknown\<close> and
  \<open>VARIANT_FUNCTION_MAP[name] ?? Unknown\<close>. (A name that only \<open>Object.prototype\<close> knows
  gives a value equal to no packet id; the model has \<open>Unknown\<close> for it.)
\<close>

definition actionPacketId :: "jsstring \<Rightarrow> packet_id" where
  "actionPacketId action =
     (if action = js ''quit'' then Quit
      else if action = js ''quit_to_exit'' then QuitToExit
      else if action = js ''join_request'' then JoinRequest
      else if action = js ''validate_world'' then ValidateWorld
      else if action = js ''input'' then Input
      else if action = js ''log'' then Log
      else Unknown)"

definition variantPacketId :: "jsstring \<Rightarrow> packet_id" where
  "variantPacketId functionName =
     (if functionName = js ''OnSendToServer'' then OnSendToServer
      else if functionName = js ''OnSpawn'' then OnSpawn
      else if functionName = js ''OnRemove'' then OnRemove
      else if functionName = js ''OnNameChanged'' then OnNameChanged
      else if functionName = js ''OnChangeSkin'' then OnChangeSkin
      else Unknown)"

definition stripNullTerminator :: "buffer \<Rightarrow> buffer" where
  "stripNullTerminator buffer =
     (if buffer \<noteq> [] \<and> last buffer = 0 then butlast buffer else buffer)"

definition ensureNullTerminator :: "buffer \<Rightarrow> buffer" where
  "ensureNullTerminator buffer =
     (if buffer \<noteq> [] \<and> last buffer = 0 then buffer else buffer @ [0])"

text \<open>\<open>readInt32LE\<close> gives the signed value of the four bytes, \<open>readUInt32LE\<close> the word.\<close>

definition readInt32LE :: "buffer \<Rightarrow> int" where
  "readInt32LE bs = sint (readUInt32LE bs)"

record text_packet =
  x_messageType :: int
  x_text :: jsstring
  x_parser :: "entry list"
  x_packetId :: packet_id
  x_inputText :: jsstring

record 'f tank_packet =
  t_messageType :: int
  t_packetType :: byte
  t_netId :: int
  t_targetNetId :: int
  t_state :: int
  t_info :: int
  t_dataSize :: nat
  t_extra :: buffer
  t_header :: buffer
  t_packetId :: packet_id
  t_variantFunction :: jsstring
  t_variantArgs :: "'f jsval list option"

datatype 'f packet = Raw | Text text_packet | Tank "'f tank_packet"

definition parseTextPacket :: "'f runtime \<Rightarrow> buffer \<Rightarrow> text_packet option" where
  "parseTextPacket rt rawBuffer =
     (let buffer = stripNullTerminator rawBuffer in
      if length buffer < 4 then None
      else
        (let messageType = uint (readUInt32LE buffer);
             message = utf8_decode rt (drop 4 buffer);
             parser = parse message bar;
             packetId = (if messageType = 1 then ServerHello
                         else actionPacketId (tp_get parser (js ''action'') 0));
             inputText = (if packetId = Input
                          then (let t = tp_get parser (js ''text'') 0 in
                                if t = [] then tp_get parser [] 1 else t)
                          else [])
         in Some \<lparr>x_messageType = messageType, x_text = message, x_parser = parser,
                   x_packetId = packetId, x_inputText = inputText\<rparr>))"

definition parseTankPacket :: "'f runtime \<Rightarrow> buffer \<Rightarrow> 'f tank_packet option" where
  "parseTankPacket rt rawBuffer =
     (let buffer = stripNullTerminator rawBuffer in
      if length buffer < 60 then None
      else
        (let messageType = uint (readUInt32LE buffer) in
         if messageType \<noteq> 4 then None
         else
           (let type = buffer ! 4;
                netId = readInt32LE (drop 8 buffer);
                targetNetId = readInt32LE (drop 12 buffer);
                state = uint (readUInt32LE (drop 16 buffer));
                info = readInt32LE (drop 24 buffer);
                dataSize = unat (readUInt32LE (drop 56 buffer));
                extraEnd = min (length buffer) (60 + dataSize);
                extra = (if extraEnd > 60 then take (extraEnd - 60) (drop 60 buffer) else []);
                header = take 60 buffer;
                variantArgs = (if type = CALL_FUNCTION then Some (parseVariantArgs rt extra) else None);
                variantFunction = (case variantArgs of
                                     None \<Rightarrow> []
                                   | Some vargs \<Rightarrow> (case array_get vargs 0 of VStr s \<Rightarrow> s | _ \<Rightarrow> []));
                packetId = (if type = CALL_FUNCTION then variantPacketId variantFunction
                            else if type = DISCONNECT then Disconnect
                            else Unknown)
            in Some \<lparr>t_messageType = messageType, t_packetType = type, t_netId = netId,
                      t_targetNetId = targetNetId, t_state = state, t_info = info,
                      t_dataSize = dataSize, t_extra = extra, t_header = header,
                      t_packetId = packetId, t_variantFunction = variantFunction,
                      t_variantArgs = variantArgs\<rparr>)))"

definition parsePacket :: "'f runtime \<Rightarrow> buffer \<Rightarrow> 'f packet" where
  "parsePacket rt rawBuffer =
     (if length rawBuffer < 4 then Raw
      else
        (let messageType = uint (readUInt32LE rawBuffer) in
         if messageType = 1 \<or> messageType = 2 \<or> messageType = 3 then
           (case parseTextPacket rt rawBuffer of None \<Rightarrow> Raw | Some p \<Rightarrow> Text p)
         else if messageType = 4 then
           (case parseTankPacket rt rawBuffer of None \<Rightarrow> Raw | Some p \<Rightarrow> Tank p)
         else Raw))"

text \<open>
  Writing bytes into a buffer at an offset, as \<open>writeUInt32LE(v, off)\<close> and its
  siblings do within the bounds of the buffer.
\<close>

definition write_at :: "buffer \<Rightarrow> nat \<Rightarrow> buffer \<Rightarrow> buffer" where
  "write_at buf off bytes = take off buf @ bytes @ drop (off + length bytes) buf"

text \<open>
  \<open>buildTankPacket\<close>. The integer writes raise a \<open>RangeError\<close> for a value outside
  their range; a header shorter than 60 bytes raises an error.
\<close>

definition buildTankPacket ::
  "buffer option \<Rightarrow> byte \<Rightarrow> int \<Rightarrow> int \<Rightarrow> int \<Rightarrow> int \<Rightarrow> buffer \<Rightarrow> error + buffer" where
  "buildTankPacket header packetType net_id target_net_id state info extra =
     (let headerBuffer = (case header of None \<Rightarrow> replicate 60 0 | Some h \<Rightarrow> h) in
      if length headerBuffer < 60 then Inl TankHeaderTooShort
      else if \<not> (INT32_MIN \<le> net_id \<and> net_id \<le> INT32_MAX) then Inl RangeError
      else if \<not> (INT32_MIN \<le> target_net_id \<and> target_net_id \<le> INT32_MAX) then Inl RangeError
      else if \<not> (0 \<le> state \<and> state \<le> UINT32_MAX) then Inl RangeError
      else if \<not> (INT32_MIN \<le> info \<and> info \<le> INT32_MAX) then Inl RangeError
      else if \<not> (int (length extra) \<le> UINT32_MAX) then Inl RangeError
      else
        (let h1 = write_at headerBuffer 0 (writeUInt32LE 4);
             h2 = write_at h1 4 [packetType];
             h3 = write_at h2 8 (writeUInt32LE (word_of_int net_id));
             h4 = write_at h3 12 (writeUInt32LE (word_of_int target_net_id));
             h5 = write_at h4 16 (writeUInt32LE (word_of_int state));
             h6 = write_at h5 24 (writeUInt32LE (word_of_int info));
             h7 = write_at h6 56 (writeUInt32LE (of_nat (length extra)))
         in Inr (take 60 h7 @ extra)))"

section \<open>packet.js: the OnSendToServer variant\<close>

record 'f send_to_server =
  s_port :: "'f jsnum"
  s_token :: "'f jsnum"
  s_user :: "'f jsnum"
  s_address :: jsstring
  s_doorId :: jsstring
  s_uuidToken :: jsstring
  s_loginMode :: "'f jsnum"
  s_username :: jsstring

definition stringOrEmpty :: "'f jsval \<Rightarrow> jsstring" where
  "stringOrEmpty v = (case v of VStr s \<Rightarrow> s | _ \<Rightarrow> [])"

definition parseOnSendToServer :: "'f runtime \<Rightarrow> 'f jsval list \<Rightarrow> 'f send_to_server option" where
  "parseOnSendToServer rt variantArgs =
     (if length variantArgs < 5 then None
      else
        (let port = orZero (toNumber rt (array_get variantArgs 1));
             token = orZero (toNumber rt (array_get variantArgs 2));
             user = orZero (toNumber rt (array_get variantArgs 3));
             rawText = stringOrEmpty (array_get variantArgs 4);
             loginMode = (case array_get variantArgs 5 of
                            VUndefined \<Rightarrow> JInt 0
                          | v \<Rightarrow> orZero (toNumber rt v));
             username = stringOrEmpty (array_get variantArgs 6);
             key = hd (split_js bar rawText);
             text = parse rawText bar
         in Some \<lparr>s_port = port, s_token = token, s_user = user, s_address = key,
                   s_doorId = tp_get text key 0, s_uuidToken = tp_get text key 1,
                   s_loginMode = loginMode, s_username = username\<rparr>))"

text \<open>\<open>String(value ?? "")\<close>\<close>

definition toStringValue :: "'f runtime \<Rightarrow> 'f jsval \<Rightarrow> jsstring" where
  "toStringValue rt v =
     (case v of
        VStr s \<Rightarrow> s
      | VNum x \<Rightarrow> numberToString rt x
      | VArr xs \<Rightarrow> join_js (js '','') (map (numberToString rt) xs)
      | VUndefined \<Rightarrow> [])"

text \<open>
  The 32 bits of \<open>x >>> 0\<close> and of \<open>x | 0\<close>: the integer part of the number modulo
  \<open>2^32\<close>, and 0 for a non-finite number.
\<close>

definition bits32 :: "'f runtime \<Rightarrow> 'f jsnum \<Rightarrow> 32 word" where
  "bits32 rt x =
     (case x of
        JInt i \<Rightarrow> word_of_int i
      | JFrac f \<Rightarrow> word_of_int (integerPart rt f)
      | _ \<Rightarrow> 0)"

definition buildVariantEntry ::
  "'f runtime \<Rightarrow> byte \<Rightarrow> byte \<Rightarrow> 'f jsval \<Rightarrow> error + buffer option" where
  "buildVariantEntry rt idx type v =
     (let indexBuffer = [idx, type] in
      if type = STRING then
        (let text = utf8_encode rt (toStringValue rt v) in
         if int (length text) \<le> UINT32_MAX
         then Inr (Some (indexBuffer @ writeUInt32LE (of_nat (length text)) @ text))
         else Inl RangeError)
      else if type = UNSIGNED then
        Inr (Some (indexBuffer @ writeUInt32LE (bits32 rt (toNumber rt v))))
      else if type = SIGNED then
        Inr (Some (indexBuffer @ writeUInt32LE (bits32 rt (toNumber rt v))))
      else if type = FLOAT then
        Inr (Some (indexBuffer @ writeUInt32LE (toFloat32 rt (orZero (toNumber rt v)))))
      else if type = VEC2 \<or> type = VEC3 then
        (let vec = (case v of VArr xs \<Rightarrow> xs | _ \<Rightarrow> []);
             n = (if type = VEC2 then 2 else 3 :: nat);
             comp = (\<lambda>i. if i < length vec then orZero (vec ! i) else JInt 0)
         in Inr (Some (indexBuffer @ concat (map (\<lambda>i. writeUInt32LE (toFloat32 rt (comp i))) [0..<n]))))
      else Inr None)"

text \<open>
  \<open>encodeVariantEntries\<close>: the count byte and the encoded slice of every entry; an
  entry without a slice is built anew, and if that gives \<open>null\<close> the result is the empty
  buffer.
\<close>

fun encodeEntriesLoop :: "'f runtime \<Rightarrow> 'f variant_entry list \<Rightarrow> error + buffer option" where
  "encodeEntriesLoop rt [] = Inr (Some [])"
| "encodeEntriesLoop rt (e # es) =
     (case (case e_encoded e of
              Some b \<Rightarrow> Inr (Some b)
            | None \<Rightarrow> buildVariantEntry rt (e_index e) (e_type e) (e_value e)) of
        Inl err \<Rightarrow> Inl err
      | Inr None \<Rightarrow> Inr None
      | Inr (Some chunk) \<Rightarrow>
          (case encodeEntriesLoop rt es of
             Inl err \<Rightarrow> Inl err
           | Inr None \<Rightarrow> Inr None
           | Inr (Some chunks) \<Rightarrow> Inr (Some (chunk @ chunks))))"

definition encodeVariantEntries ::
  "'f runtime \<Rightarrow> nat \<times> 'f variant_entry list \<Rightarrow> error + buffer" where
  "encodeVariantEntries rt parsed =
     (case encodeEntriesLoop rt (snd parsed) of
        Inl err \<Rightarrow> Inl err
      | Inr None \<Rightarrow> Inr []
      | Inr (Some chunks) \<Rightarrow> Inr (of_nat (fst parsed) # chunks))"

text \<open>
  \<open>entries.find(...)\<close> gives the first entry with the index; assigning to its fields
  changes that entry of the list.
\<close>

fun update_first :: "('a \<Rightarrow> bool) \<Rightarrow> ('a \<Rightarrow> 'a) \<Rightarrow> 'a list \<Rightarrow> 'a list" where
  "update_first P f [] = []"
| "update_first P f (x # xs) = (if P x then f x # xs else x # update_first P f xs)"

definition rewriteOnSendToServerExtra ::
  "'f runtime \<Rightarrow> buffer \<Rightarrow> jsstring \<Rightarrow> 'f jsnum \<Rightarrow> error + buffer option" where
  "rewriteOnSendToServerExtra rt extraBuffer newAddress newPort =
     (case parseVariantEntries rt extraBuffer of
        None \<Rightarrow> Inr None
      | Some (count, entries) \<Rightarrow>
          if entries = [] then Inr None
          else
            (case find (\<lambda>e. e_index e = 0) entries of
               None \<Rightarrow> Inr None
             | Some functionEntry \<Rightarrow>
                 if e_type functionEntry \<noteq> STRING \<or> e_value functionEntry \<noteq> VStr (js ''OnSendToServer'')
                 then Inr None
                 else
                   (case (find (\<lambda>e. e_index e = 1) entries, find (\<lambda>e. e_index e = 4) entries) of
                      (Some portEntry, Some routeEntry) \<Rightarrow>
                        if e_type routeEntry \<noteq> STRING then Inr None
                        else
                          (let routeText = stringOrEmpty (e_value routeEntry);
                               address = (if newAddress = [] then js ''127.0.0.1'' else newAddress);
                               rewrittenRoute = (if bar \<in> set routeText
                                                 then address @ dropWhile (\<lambda>u. u \<noteq> bar) routeText
                                                 else address);
                               portValue = VNum (orZero newPort);
                               portType = (if e_type portEntry = SIGNED \<or> e_type portEntry = UNSIGNED
                                           then e_type portEntry else UNSIGNED)
                           in case buildVariantEntry rt (e_index portEntry) portType portValue of
                                Inl err \<Rightarrow> Inl err
                              | Inr portEncoded \<Rightarrow>
                                  (case buildVariantEntry rt (e_index routeEntry) STRING (VStr rewrittenRoute) of
                                     Inl err \<Rightarrow> Inl err
                                   | Inr routeEncoded \<Rightarrow>
                                       (let entries1 = update_first (\<lambda>e. e_index e = 1)
                                              (\<lambda>e. e\<lparr>e_value := portValue, e_encoded := portEncoded\<rparr>) entries;
                                            entries2 = update_first (\<lambda>e. e_index e = 4)
                                              (\<lambda>e. e\<lparr>e_value := VStr rewrittenRoute, e_encoded := routeEncoded\<rparr>)
                                              entries1
                                        in case encodeVariantEntries rt (count, entries2) of
                                             Inl err \<Rightarrow> Inl err
                                           | Inr encoded \<Rightarrow>
                                               Inr (if encoded \<noteq> [] then Some encoded else None))))
                    | _ \<Rightarrow> Inr None)))"

section \<open>packet.js: the OnSpawn and OnRemove variants\<close>

definition parseOnSpawn :: "'f jsval list \<Rightarrow> participant option" where
  "parseOnSpawn variantArgs =
     (if length variantArgs < 2 then None
      else
        (case array_get variantArgs 1 of
           VStr s \<Rightarrow>
             (let parser = parse s bar in
              Some \<lparr>spawn = tp_get parser (js ''spawn'') 0,
                     netId = tp_getInt parser (js ''netID'') 0 (- 1),
                     userId = tp_getInt parser (js ''userID'') 0 0,
                     name = tp_get parser (js ''name'') 0,
                     ptype = tp_get parser (js ''type'') 0\<rparr>)
         | _ \<Rightarrow> None))"

definition parseOnRemove :: "'f jsval list \<Rightarrow> int option" where
  "parseOnRemove variantArgs =
     (if length variantArgs < 2 then None
      else
        (let netData = stringOrEmpty (array_get variantArgs 1);
             parser = parse netData bar
         in Some (tp_getInt parser (js ''netID'') 0 (- 1))))"

section \<open>proxyCore.js: the relay and its pending endpoint\<close>

text \<open>
  The part of the \<open>ProxyCore\<close> object that the handling of a client-bound frame reads
  or writes. A peer slot is modelled by whether it is filled, the retry timer by
  whether it is armed.
\<close>

record 'f relay =
  pendingAddress :: jsstring
  pendingPort :: "'f jsnum"
  clientPeer :: bool
  serverPeer :: bool
  proxyClientListening :: bool
  upstreamRetryTimer :: bool
  upstreamRetryCount :: nat
  world :: world_state

text \<open>
  What the transport library answers during one \<open>connectPendingServer\<close>: the result of
  the first \<open>connect\<close>, the number of stale peers that \<open>cleanupProxyClientPeers\<close> reset,
  and the result of the second \<open>connect\<close>.
\<close>

record connect_env =
  firstConnect :: bool
  resetCount :: nat
  secondConnect :: bool

definition isInRangePort :: "'f jsnum \<Rightarrow> bool" where
  "isInRangePort port = (case port of JInt i \<Rightarrow> 0 < i \<and> i \<le> 65535 | _ \<Rightarrow> False)"

definition clearUpstreamRetry :: "'f relay \<Rightarrow> 'f relay" where
  "clearUpstreamRetry st = st\<lparr>upstreamRetryTimer := False, upstreamRetryCount := 0\<rparr>"

definition scheduleUpstreamRetry :: "'f relay \<Rightarrow> 'f relay" where
  "scheduleUpstreamRetry st =
     (if \<not> clientPeer st \<or> pendingAddress st = [] \<or> \<not> isInRangePort (pendingPort st) then st
      else if upstreamRetryTimer st then st
      else
        (let st1 = st\<lparr>upstreamRetryCount := upstreamRetryCount st + 1\<rparr> in
         if upstreamRetryCount st1 > 12 then st1
         else st1\<lparr>upstreamRetryTimer := True\<rparr>))"

definition connectPendingServer :: "connect_env \<Rightarrow> 'f relay \<Rightarrow> bool \<times> 'f relay" where
  "connectPendingServer env st =
     (let cleanedAddress = trim (filter (\<lambda>u. u \<noteq> 0) (pendingAddress st));
          cleanedPort = pendingPort st
      in if cleanedAddress = [] \<or> \<not> isInRangePort cleanedPort then (False, st)
         else
           (let st1 = st\<lparr>pendingAddress := cleanedAddress, pendingPort := cleanedPort\<rparr> in
            if serverPeer st1 then (False, scheduleUpstreamRetry (st1\<lparr>serverPeer := False\<rparr>))
            else
              (let st2 = st1\<lparr>proxyClientListening := True\<rparr>;
                   ok = (if firstConnect env then True
                         else if resetCount env > 0 then secondConnect env
                         else False)
               in if ok
                  then (True, (clearUpstreamRetry st2)\<lparr>pendingAddress := [], pendingPort := JInt 65535\<rparr>)
                  else (False, scheduleUpstreamRetry st2))))"

text \<open>
  \<open>handleClientBoundPacket\<close>. The subscribers of the \<open>clientBoundPacket\<close> event are the
  parameter \<open>hook\<close>: from the frame they are handed, the frame they leave in
  \<open>context.raw\<close> and whether they cancelled it. The result is the new state of the
  relay and the frame sent to the client, if one is sent.
\<close>

definition handleOnSendToServer ::
  "'f runtime \<Rightarrow> connect_env \<Rightarrow> nat \<Rightarrow> 'f relay \<Rightarrow> bool \<Rightarrow> 'f tank_packet \<Rightarrow> 'f jsval list
   \<Rightarrow> buffer \<Rightarrow> error + ('f relay \<times> buffer)" where
  "handleOnSendToServer rt env serverPort st hadTrailingNull parsed variantArgs rawData =
     (case parseOnSendToServer rt variantArgs of
        None \<Rightarrow> Inr (st, rawData)
      | Some sendToServer \<Rightarrow>
          (let st1 = st\<lparr>pendingAddress := s_address sendToServer,
                         pendingPort := s_port sendToServer\<rparr>
           in case rewriteOnSendToServerExtra rt (t_extra parsed) (js ''127.0.0.1'')
                     (JInt (int serverPort)) of
                Inl err \<Rightarrow> Inl err
              | Inr modifiedExtra \<Rightarrow>
                  (case (case modifiedExtra of
                           None \<Rightarrow> Inr rawData
                         | Some extra \<Rightarrow>
                             (case buildTankPacket (Some (t_header parsed)) CALL_FUNCTION
                                     (t_netId parsed) (t_targetNetId parsed) (t_state parsed)
                                     (t_info parsed) extra of
                                Inl err \<Rightarrow> Inl err
                              | Inr modifiedTank \<Rightarrow>
                                  Inr (if hadTrailingNull then ensureNullTerminator modifiedTank
                                       else modifiedTank))) of
                     Inl err \<Rightarrow> Inl err
                   | Inr raw \<Rightarrow>
                       (let st2 = (if clientPeer st1 \<and> \<not> serverPeer st1
                                   then snd (connectPendingServer env st1)
                                   else st1)
                        in Inr (st2, raw)))))"

definition handleClientBoundPacket ::
  "'f runtime \<Rightarrow> connect_env \<Rightarrow> nat \<Rightarrow> (buffer \<Rightarrow> buffer \<times> bool) \<Rightarrow> 'f relay \<Rightarrow> buffer
   \<Rightarrow> error + ('f relay \<times> buffer option)" where
  "handleClientBoundPacket rt env serverPort hook st rawData =
     (let hadTrailingNull = (rawData \<noteq> [] \<and> last rawData = 0);
          parsed = parsePacket rt rawData
      in case (case parsed of
                 Tank t \<Rightarrow>
                   (case t_variantArgs t of
                      None \<Rightarrow> Inr (st, rawData)
                    | Some variantArgs \<Rightarrow>
                        if t_packetId t = OnSendToServer
                        then handleOnSendToServer rt env serverPort st hadTrailingNull t variantArgs rawData
                        else if t_packetId t = OnSpawn
                        then (case parseOnSpawn variantArgs of
                                None \<Rightarrow> Inr (st, rawData)
                              | Some spawnData \<Rightarrow> Inr (st\<lparr>world := onSpawn spawnData (world st)\<rparr>, rawData))
                        else if t_packetId t = OnRemove
                        then (case parseOnRemove variantArgs of
                                None \<Rightarrow> Inr (st, rawData)
                              | Some n \<Rightarrow> Inr (st\<lparr>world := onRemove n (world st)\<rparr>, rawData))
                        else Inr (st, rawData))
               | _ \<Rightarrow> Inr (st, rawData)) of
           Inl err \<Rightarrow> Inl err
         | Inr (st', raw) \<Rightarrow>
             (let (raw', canceled) = hook raw in
              if canceled then Inr (st', None)
              else if \<not> clientPeer st' then Inr (st', None)
              else Inr (st', Some raw')))"

text \<open>No script subscribes to the event: the frame is left as it is and not cancelled.\<close>

definition no_hook :: "buffer \<Rightarrow> buffer \<times> bool" where
  "no_hook raw = (raw, False)"

text \<open>
  The last entry with a given index, which is the one that \<open>parseVariantArgs\<close> keeps.
\<close>

definition last_with_index :: "'f variant_entry list \<Rightarrow> nat \<Rightarrow> 'f variant_entry option" where
  "last_with_index entries i = find (\<lambda>e. unat (e_index e) = i) (rev entries)"

text \<open>
  An entry is read from a slice when parsing the slice, whatever follows it, gives
  the entry and leaves what follows.
\<close>

definition reads_as :: "'f runtime \<Rightarrow> buffer \<Rightarrow> 'f variant_entry \<Rightarrow> bool" where
  "reads_as rt enc e = (\<forall>r. parseEntry rt (enc @ r) = Some (e, r))"

section \<open>Properties of the text-line codec\<close>

lemma tokenize_loop_started:
  "out \<noteq> [] \<Longrightarrow> tokenize_loop True ts out = out @ ts"
  by (induction ts arbitrary: out) auto

lemma tokenize_loop_dropWhile:
  "tokenize_loop True ts [] = dropWhile (\<lambda>t. t = []) ts"
  by (induction ts) (auto simp: tokenize_loop_started)

lemma split_js_Nil:
  "split_js d [] = [[]]"
  by simp

lemma tokenize_dropWhile:
  "tokenize raw d True = dropWhile (\<lambda>t. t = []) (split_js d raw)"
  by (cases raw) (simp_all add: tokenize_def tokenize_loop_dropWhile)

lemma parse_loop_filter:
  "parse_loop d ls acc =
     acc @ map (\<lambda>ts. (hd ts, tl ts))
             (filter (\<lambda>ts. 2 \<le> length ts) (map (\<lambda>l. tokenize l d True) ls))"
  by (induction ls arbitrary: acc) (auto simp: Let_def)

lemma parse_filter:
  "parse raw d =
     map (\<lambda>ts. (hd ts, tl ts))
       (filter (\<lambda>ts. 2 \<le> length ts) (map (\<lambda>l. tokenize l d True) (split_js newline raw)))"
proof (cases raw)
  case Nil
  then show ?thesis by (simp add: parse_def tokenize_def)
next
  case (Cons c cs)
  then show ?thesis by (simp only: parse_def parse_loop_filter list.simps if_False append_Nil)
qed

text \<open>
  Claim C9, as the code has it: tokenization drops every empty token that comes
  before the first non-empty one and keeps all later tokens, empty or not; record
  parsing splits on the newline, tokenizes each line, discards the lines with fewer
  than two tokens (so the empty lines too), and for each surviving line takes the
  first kept token as key and the remaining tokens, in order, as values.
\<close>

theorem C9_tokenize_parse:
  "tokenize raw d True = dropWhile (\<lambda>t. t = []) (split_js d raw)
   \<and> parse raw d =
       map (\<lambda>ts. (hd ts, tl ts))
         (filter (\<lambda>ts. 2 \<le> length ts)
            (map (\<lambda>l. tokenize l d True) (split_js newline raw)))
   \<and> tokenize [] d True = []"
  by (intro conjI tokenize_dropWhile parse_filter) (simp add: tokenize_def)

text \<open>
  Claim C9 as the specification words it fails on the line \<open>||a\<close>: the second empty
  token is not the leading one, and the code drops it as well.
\<close>

theorem C9_counterexample:
  "tokenize (js ''||a'') bar True = [js ''a'']
   \<and> tokenize_drop_one (js ''||a'') bar = [[], js ''a'']"
  by (simp add: tokenize_def tokenize_drop_one_def js_def bar_def)

section \<open>Properties of the world state\<close>

lemma world_step_local_known:
  assumes "localNetId w = -1 \<or> (0 \<le> localNetId w \<and> localNetId w \<in> dom (players w))"
  shows "localNetId (world_step w x) = -1
         \<or> (0 \<le> localNetId (world_step w x) \<and> localNetId (world_step w x) \<in> dom (players (world_step w x)))"
  using assms by (cases x) (auto simp: onSpawn_def onRemove_def clear_def Let_def)

lemma foldl_world_local_known:
  assumes "localNetId w = -1 \<or> (0 \<le> localNetId w \<and> localNetId w \<in> dom (players w))"
  shows "localNetId (foldl world_step w ops) = -1
         \<or> (0 \<le> localNetId (foldl world_step w ops)
              \<and> localNetId (foldl world_step w ops) \<in> dom (players (foldl world_step w ops)))"
  using assms
proof (induction ops arbitrary: w)
  case Nil
  then show ?case by simp
next
  case (Cons x xs)
  show ?case
    unfolding foldl_Cons
    by (rule Cons.IH) (rule world_step_local_known [OF Cons.prems])
qed

lemma world_run_local_known:
  "localNetId (world_run ops) = -1
   \<or> (0 \<le> localNetId (world_run ops) \<and> localNetId (world_run ops) \<in> dom (players (world_run ops)))"
  unfolding world_run_def
  by (rule foldl_world_local_known) (simp add: world_init_def)

text \<open>
  Claim C6 fails on the code: a participant of type \<open>local\<close> spawned under net-id 5 and
  then overwritten by a spawn of another type under the same net-id leaves
  \<open>localNetId = 5\<close> although no participant of type \<open>local\<close> is known any more.
  \<open>onRemove\<close> and \<open>clear\<close> reset \<open>localNetId\<close>; the overwrite in \<open>onSpawn\<close> does not.
\<close>

theorem C6_overwrite_keeps_localNetId:
  "localNetId (world_run
      [Spawn \<lparr>spawn = [], netId = 5, userId = 1, name = js ''a'', ptype = js ''local''\<rparr>,
       Spawn \<lparr>spawn = [], netId = 5, userId = 2, name = js ''b'', ptype = []\<rparr>]) = 5
   \<and> no_local (world_run
      [Spawn \<lparr>spawn = [], netId = 5, userId = 1, name = js ''a'', ptype = js ''local''\<rparr>,
       Spawn \<lparr>spawn = [], netId = 5, userId = 2, name = js ''b'', ptype = []\<rparr>])"
  by (simp add: world_run_def world_init_def onSpawn_def no_local_def js_def Let_def)

section \<open>Properties of the scheduler\<close>

lemma sched_invI:
  assumes "\<And>tid tag cb. timers s tid = Some (tag, cb) \<Longrightarrow> tid < nextId s"
    and "\<And>tid tag cb. timers s tid = Some (tag, cb) \<Longrightarrow> tag \<noteq> [] \<Longrightarrow> map_of (tasksByTag s) tag = Some tid"
    and "\<And>tid cb. (tid, cb) \<in> set (fired s) \<Longrightarrow> tid < nextId s"
  shows "sched_inv s"
  using assms unfolding sched_inv_def by blast

lemma sched_inv_below:
  "sched_inv s \<Longrightarrow> timers s tid = Some (tag, cb) \<Longrightarrow> tid < nextId s"
  unfolding sched_inv_def by blast

lemma sched_inv_mapped:
  "sched_inv s \<Longrightarrow> timers s tid = Some (tag, cb) \<Longrightarrow> tag \<noteq> [] \<Longrightarrow> map_of (tasksByTag s) tag = Some tid"
  unfolding sched_inv_def by blast

lemma sched_inv_fired:
  "sched_inv s \<Longrightarrow> (tid, cb) \<in> set (fired s) \<Longrightarrow> tid < nextId s"
  unfolding sched_inv_def by blast

lemma sched_inv_init: "sched_inv scheduler_init"
  by (simp add: sched_inv_def scheduler_init_def)

lemma map_of_delete_eq: "map_of (AList.delete k al) = (map_of al)(k := None)"
  by (rule ext) (simp add: AList.delete_conv)

lemma map_of_update_eq: "map_of (AList.update k v al) = (map_of al)(k \<mapsto> v)"
  by (rule ext) (simp add: AList.update_conv')

text \<open>cancelByTag, field by field\<close>

lemma cancelByTag_timers:
  "timers (snd (cancelByTag tag s)) =
     (case map_of (tasksByTag s) tag of None \<Rightarrow> timers s | Some t \<Rightarrow> (timers s)(t := None))"
  by (simp add: cancelByTag_def clearTimeout_def Let_def split: option.splits)

lemma cancelByTag_map:
  "map_of (tasksByTag (snd (cancelByTag tag s))) = (map_of (tasksByTag s))(tag := None)"
  by (auto simp add: cancelByTag_def clearTimeout_def Let_def map_of_delete_eq split: option.splits)

lemma cancelByTag_nextId: "nextId (snd (cancelByTag tag s)) = nextId s"
  by (simp add: cancelByTag_def clearTimeout_def Let_def split: option.splits)

lemma cancelByTag_fired: "fired (snd (cancelByTag tag s)) = fired s"
  by (simp add: cancelByTag_def clearTimeout_def Let_def split: option.splits)

lemma cancelByTag_timers_sub:
  "timers (snd (cancelByTag tag s)) tid = Some x \<Longrightarrow> timers s tid = Some x"
  by (auto simp: cancelByTag_timers split: option.splits if_splits)

lemma cancelByTag_no_pending:
  assumes "sched_inv s" and "tag \<noteq> []"
  shows "timers (snd (cancelByTag tag s)) tid \<noteq> Some (tag, cb)"
proof
  assume a: "timers (snd (cancelByTag tag s)) tid = Some (tag, cb)"
  then have b: "timers s tid = Some (tag, cb)" by (rule cancelByTag_timers_sub)
  then have "map_of (tasksByTag s) tag = Some tid" using assms by (simp add: sched_inv_mapped)
  then have "timers (snd (cancelByTag tag s)) tid = None" by (simp add: cancelByTag_timers)
  with a show False by simp
qed

lemma sched_inv_cancelByTag:
  assumes "sched_inv s"
  shows "sched_inv (snd (cancelByTag tag s))"
proof (rule sched_invI)
  fix tid tg cb assume a: "timers (snd (cancelByTag tag s)) tid = Some (tg, cb)"
  then have b: "timers s tid = Some (tg, cb)" by (rule cancelByTag_timers_sub)
  show "tid < nextId (snd (cancelByTag tag s))"
    using sched_inv_below [OF assms b] by (simp add: cancelByTag_nextId)
  assume ne: "tg \<noteq> []"
  have m: "map_of (tasksByTag s) tg = Some tid" by (rule sched_inv_mapped [OF assms b ne])
  have "tg \<noteq> tag"
  proof
    assume "tg = tag"
    with m have "timers (snd (cancelByTag tag s)) tid = None" by (simp add: cancelByTag_timers)
    with a show False by simp
  qed
  with m show "map_of (tasksByTag (snd (cancelByTag tag s))) tg = Some tid"
    by (simp add: cancelByTag_map)
next
  fix tid cb assume "(tid, cb) \<in> set (fired (snd (cancelByTag tag s)))"
  then show "tid < nextId (snd (cancelByTag tag s))"
    using assms by (simp add: cancelByTag_fired cancelByTag_nextId sched_inv_fired)
qed

text \<open>scheduleDelayed, field by field\<close>

lemma scheduleDelayed_fst:
  "fst (scheduleDelayed cb d tag s) = nextId s"
  by (simp add: scheduleDelayed_def Let_def cancelByTag_nextId)

lemma scheduleDelayed_nextId:
  "nextId (snd (scheduleDelayed cb d tag s)) = Suc (nextId s)"
  by (simp add: scheduleDelayed_def Let_def cancelByTag_nextId)

lemma scheduleDelayed_fired:
  "fired (snd (scheduleDelayed cb d tag s)) = fired s"
  by (simp add: scheduleDelayed_def Let_def cancelByTag_fired)

lemma scheduleDelayed_timers:
  "timers (snd (scheduleDelayed cb d tag s)) =
     (timers (if tag \<noteq> [] then snd (cancelByTag tag s) else s))(nextId s \<mapsto> (tag, cb))"
  by (simp add: scheduleDelayed_def Let_def cancelByTag_nextId)

lemma scheduleDelayed_map:
  "map_of (tasksByTag (snd (scheduleDelayed cb d tag s))) =
     (if tag \<noteq> [] then (map_of (tasksByTag s))(tag \<mapsto> nextId s) else map_of (tasksByTag s))"
  by (simp add: scheduleDelayed_def Let_def cancelByTag_nextId map_of_update_eq cancelByTag_map)

lemma scheduleDelayed_timers_old:
  assumes "timers (snd (scheduleDelayed cb d tag s)) tid = Some x" and "tid \<noteq> nextId s"
  shows "timers s tid = Some x"
  using assms by (auto simp: scheduleDelayed_timers dest: cancelByTag_timers_sub split: if_splits)

lemma sched_inv_scheduleDelayed:
  assumes "sched_inv s"
  shows "sched_inv (snd (scheduleDelayed cb d tag s))"
proof (rule sched_invI)
  fix tid tg c assume a: "timers (snd (scheduleDelayed cb d tag s)) tid = Some (tg, c)"
  show "tid < nextId (snd (scheduleDelayed cb d tag s))"
  proof (cases "tid = nextId s")
    case True
    then show ?thesis by (simp add: scheduleDelayed_nextId)
  next
    case False
    with a have "timers s tid = Some (tg, c)" by (rule scheduleDelayed_timers_old)
    then have "tid < nextId s" using assms by (rule sched_inv_below [rotated])
    then show ?thesis by (simp add: scheduleDelayed_nextId)
  qed
  assume ne: "tg \<noteq> []"
  show "map_of (tasksByTag (snd (scheduleDelayed cb d tag s))) tg = Some tid"
  proof (cases "tid = nextId s")
    case True
    with a have "tg = tag" by (simp add: scheduleDelayed_timers)
    with ne True show ?thesis by (simp add: scheduleDelayed_map)
  next
    case False
    with a have b: "timers s tid = Some (tg, c)" by (rule scheduleDelayed_timers_old)
    have m: "map_of (tasksByTag s) tg = Some tid" by (rule sched_inv_mapped [OF assms b ne])
    show ?thesis
    proof (cases "tag \<noteq> [] \<and> tg = tag")
      case True
      then have "timers (snd (cancelByTag tag s)) tid \<noteq> Some (tag, c)"
        using assms by (simp add: cancelByTag_no_pending)
      with a True False show ?thesis by (simp add: scheduleDelayed_timers)
    next
      case False
      with m show ?thesis by (auto simp: scheduleDelayed_map)
    qed
  qed
next
  fix tid c assume "(tid, c) \<in> set (fired (snd (scheduleDelayed cb d tag s)))"
  then have "tid < nextId s" using assms by (simp add: scheduleDelayed_fired sched_inv_fired)
  then show "tid < nextId (snd (scheduleDelayed cb d tag s))" by (simp add: scheduleDelayed_nextId)
qed

text \<open>cancelAll\<close>

lemma fold_clearTimeout_timers:
  "timers (fold clearTimeout ts s) tid = (if tid \<in> set ts then None else timers s tid)"
  by (induction ts arbitrary: s) (auto simp: clearTimeout_def)

lemma fold_clearTimeout_nextId: "nextId (fold clearTimeout ts s) = nextId s"
  by (induction ts arbitrary: s) (auto simp: clearTimeout_def)

lemma fold_clearTimeout_fired: "fired (fold clearTimeout ts s) = fired s"
  by (induction ts arbitrary: s) (auto simp: clearTimeout_def)

lemma sched_inv_cancelAll:
  assumes "sched_inv s"
  shows "sched_inv (cancelAll s)"
proof (rule sched_invI)
  fix tid tg c assume a: "timers (cancelAll s) tid = Some (tg, c)"
  then have b: "timers s tid = Some (tg, c)" and nin: "tid \<notin> snd ` set (tasksByTag s)"
    by (auto simp: cancelAll_def fold_clearTimeout_timers split: if_splits)
  show "tid < nextId (cancelAll s)"
    using sched_inv_below [OF assms b] by (simp add: cancelAll_def fold_clearTimeout_nextId)
  assume ne: "tg \<noteq> []"
  have "map_of (tasksByTag s) tg = Some tid" by (rule sched_inv_mapped [OF assms b ne])
  then have "(tg, tid) \<in> set (tasksByTag s)" by (rule map_of_SomeD)
  then have "tid \<in> snd ` set (tasksByTag s)" by force
  with nin show "map_of (tasksByTag (cancelAll s)) tg = Some tid" by simp
next
  fix tid c assume "(tid, c) \<in> set (fired (cancelAll s))"
  then show "tid < nextId (cancelAll s)"
    using assms by (simp add: cancelAll_def fold_clearTimeout_nextId fold_clearTimeout_fired sched_inv_fired)
qed

text \<open>fire\<close>

lemma fire_nextId: "nextId (fire tid s) = nextId s"
  by (simp add: fire_def Let_def split: option.splits)

lemma fire_timers_sub: "timers (fire t s) tid = Some x \<Longrightarrow> timers s tid = Some x"
  by (auto simp: fire_def Let_def split: option.splits if_splits)

lemma fire_fired:
  "set (fired (fire t s)) \<subseteq> set (fired s) \<union> {(t, c) | c. \<exists>tg. timers s t = Some (tg, c)}"
  by (auto simp: fire_def Let_def split: option.splits if_splits)

lemma fire_map:
  "map_of (tasksByTag (fire t s)) tg =
     (case timers s t of
        None \<Rightarrow> map_of (tasksByTag s) tg
      | Some (tag, c) \<Rightarrow> if tag \<noteq> [] \<and> tg = tag then None else map_of (tasksByTag s) tg)"
  by (auto simp: fire_def Let_def map_of_delete_eq split: option.splits)

lemma fire_timers:
  "timers (fire t s) tid = (if tid = t then None else timers s tid)"
  by (auto simp: fire_def Let_def split: option.splits)

lemma sched_inv_fire:
  assumes "sched_inv s"
  shows "sched_inv (fire t s)"
proof (rule sched_invI)
  fix tid tg c assume a: "timers (fire t s) tid = Some (tg, c)"
  then have b: "timers s tid = Some (tg, c)" and nt: "tid \<noteq> t"
    by (auto simp: fire_timers split: if_splits)
  show "tid < nextId (fire t s)"
    using sched_inv_below [OF assms b] by (simp add: fire_nextId)
  assume ne: "tg \<noteq> []"
  have m: "map_of (tasksByTag s) tg = Some tid" by (rule sched_inv_mapped [OF assms b ne])
  show "map_of (tasksByTag (fire t s)) tg = Some tid"
  proof (cases "timers s t")
    case None
    with m show ?thesis by (simp add: fire_map)
  next
    case (Some x)
    obtain tag c' where x: "x = (tag, c')" by (cases x)
    have "\<not> (tag \<noteq> [] \<and> tg = tag)"
    proof
      assume h: "tag \<noteq> [] \<and> tg = tag"
      with Some x have "map_of (tasksByTag s) tg = Some t"
        using assms by (simp add: sched_inv_mapped)
      with m nt show False by simp
    qed
    with Some x m show ?thesis by (auto simp: fire_map)
  qed
next
  fix tid c assume "(tid, c) \<in> set (fired (fire t s))"
  with fire_fired [of t s]
  have "(tid, c) \<in> set (fired s) \<or> (tid = t \<and> (\<exists>tg. timers s t = Some (tg, c)))" by auto
  then have "tid < nextId s"
    using assms by (auto simp: sched_inv_fired sched_inv_below)
  then show "tid < nextId (fire t s)" by (simp add: fire_nextId)
qed

lemma sched_inv_step:
  "sched_inv s \<Longrightarrow> sched_inv (sched_step s e)"
  by (cases e) (simp_all add: sched_inv_scheduleDelayed sched_inv_cancelByTag sched_inv_cancelAll sched_inv_fire)

lemma sched_inv_run:
  "sched_inv s \<Longrightarrow> sched_inv (sched_run s es)"
  unfolding sched_run_def
  by (induction es arbitrary: s) (simp_all add: sched_inv_step)

lemma sched_inv_one_per_tag:
  assumes "sched_inv s" and "tag \<noteq> []"
    and "t \<in> pending_with_tag s tag" and "t' \<in> pending_with_tag s tag"
  shows "t = t'"
proof -
  from assms(3) obtain c where "timers s t = Some (tag, c)" by (auto simp: pending_with_tag_def)
  then have 1: "map_of (tasksByTag s) tag = Some t" using assms(1,2) by (simp add: sched_inv_mapped)
  from assms(4) obtain c' where "timers s t' = Some (tag, c')" by (auto simp: pending_with_tag_def)
  then have "map_of (tasksByTag s) tag = Some t'" using assms(1,2) by (simp add: sched_inv_mapped)
  with 1 show ?thesis by simp
qed

lemma dead_step:
  assumes "dead t s"
  shows "dead t (sched_step s e)"
proof (cases e)
  case (Schedule cb d tag)
  with assms show ?thesis
    by (auto simp: dead_def scheduleDelayed_timers scheduleDelayed_nextId scheduleDelayed_fired
        cancelByTag_timers split: option.splits)
next
  case (CancelByTag tag)
  with assms show ?thesis
    by (auto simp: dead_def cancelByTag_timers cancelByTag_nextId cancelByTag_fired split: option.splits)
next
  case CancelAll
  with assms show ?thesis
    by (auto simp: dead_def cancelAll_def fold_clearTimeout_timers fold_clearTimeout_nextId
        fold_clearTimeout_fired)
next
  case (Fire tid)
  have "fst ` set (fired (fire tid s)) \<subseteq> fst ` set (fired s) \<union> {x. x = tid \<and> timers s tid \<noteq> None}"
    using fire_fired [of tid s] by auto
  with Fire assms show ?thesis
    by (auto simp: dead_def fire_timers fire_nextId)
qed

lemma dead_run: "dead t s \<Longrightarrow> dead t (sched_run s es)"
  unfolding sched_run_def
  by (induction es arbitrary: s) (simp_all add: dead_step)

text \<open>
  Claim C7: for a non-empty tag \<open>X\<close>, in any state the scheduler can reach, after
  \<open>scheduleDelayed(cb, d, X)\<close> followed immediately by \<open>scheduleDelayed(cb2, d2, X)\<close>
  the timer of the first call is cancelled (it is not pending when the second call
  returns), it never fires whatever happens afterwards, the only pending timer tagged
  \<open>X\<close> is the one that runs \<open>cb2\<close>, and at every later moment each non-empty tag has
  at most one pending timer.
\<close>

theorem C7_replaced_task_never_runs:
  assumes "X \<noteq> []"
  shows "(let s = sched_run scheduler_init es0;
              (t1, s1) = scheduleDelayed cb d X s;
              (t2, s2) = scheduleDelayed cb2 d2 X s1;
              s' = sched_run s2 es
          in timers s2 t1 = None
             \<and> t1 \<notin> fst ` set (fired s')
             \<and> timers s' t1 = None
             \<and> timers s2 t2 = Some (X, cb2)
             \<and> pending_with_tag s2 X = {t2}
             \<and> (\<forall>tag t t'. tag \<noteq> [] \<longrightarrow> t \<in> pending_with_tag s' tag
                    \<longrightarrow> t' \<in> pending_with_tag s' tag \<longrightarrow> t = t'))"
proof -
  define s where "s = sched_run (scheduler_init :: 'a scheduler) es0"
  define s1 where "s1 = snd (scheduleDelayed cb d X s)"
  define s2 where "s2 = snd (scheduleDelayed cb2 d2 X s1)"
  define t1 where "t1 = nextId s"
  define t2 where "t2 = nextId s1"
  define s' where "s' = sched_run s2 es"
  have inv: "sched_inv s" unfolding s_def by (rule sched_inv_run) (rule sched_inv_init)
  have inv1: "sched_inv s1" unfolding s1_def by (rule sched_inv_scheduleDelayed [OF inv])
  have inv2: "sched_inv s2" unfolding s2_def by (rule sched_inv_scheduleDelayed [OF inv1])
  have inv': "sched_inv s'" unfolding s'_def by (rule sched_inv_run [OF inv2])
  have n1: "nextId s1 = Suc t1" by (simp add: s1_def t1_def scheduleDelayed_nextId)
  have p1: "timers s1 t1 = Some (X, cb)"
    by (simp add: s1_def t1_def scheduleDelayed_timers)
  have m1: "map_of (tasksByTag s1) X = Some t1"
    using assms by (simp add: s1_def t1_def scheduleDelayed_map)
  have c1: "timers (snd (cancelByTag X s1)) t1 = None"
    using m1 by (simp add: cancelByTag_timers)
  have gone: "timers s2 t1 = None"
    using assms c1 n1 by (simp add: s2_def scheduleDelayed_timers)
  have nf: "t1 \<notin> fst ` set (fired s2)"
  proof
    assume "t1 \<in> fst ` set (fired s2)"
    then obtain c where "(t1, c) \<in> set (fired s)"
      by (auto simp: s2_def s1_def scheduleDelayed_fired)
    then have "t1 < nextId s" using inv by (simp add: sched_inv_fired)
    then show False by (simp add: t1_def)
  qed
  have "dead t1 s2"
    using gone nf n1 by (simp add: dead_def s2_def scheduleDelayed_nextId)
  then have d': "dead t1 s'" unfolding s'_def by (rule dead_run)
  have p2: "timers s2 t2 = Some (X, cb2)"
    by (simp add: s2_def t2_def scheduleDelayed_timers)
  have only: "pending_with_tag s2 X = {t2}"
  proof
    show "{t2} \<subseteq> pending_with_tag s2 X" using p2 by (auto simp: pending_with_tag_def)
    show "pending_with_tag s2 X \<subseteq> {t2}"
    proof
      fix t assume "t \<in> pending_with_tag s2 X"
      moreover have "t2 \<in> pending_with_tag s2 X" using p2 by (auto simp: pending_with_tag_def)
      ultimately have "t = t2" using inv2 assms by (rule sched_inv_one_per_tag [rotated 2])
      then show "t \<in> {t2}" by simp
    qed
  qed
  have one: "\<forall>tag t t'. tag \<noteq> [] \<longrightarrow> t \<in> pending_with_tag s' tag
                    \<longrightarrow> t' \<in> pending_with_tag s' tag \<longrightarrow> t = t'"
    using inv' by (blast intro: sched_inv_one_per_tag)
  have e1: "scheduleDelayed cb d X s = (t1, s1)"
    by (simp add: s1_def t1_def prod_eq_iff scheduleDelayed_fst)
  have e2: "scheduleDelayed cb2 d2 X s1 = (t2, s2)"
    by (simp add: s2_def t2_def prod_eq_iff scheduleDelayed_fst)
  show ?thesis
    using gone d' p2 only one
    by (simp add: Let_def e1 e2 s_def [symmetric] s'_def [symmetric] dead_def)
qed

text \<open>
  The theorem at the tag \<open>warp\<close> on a fresh scheduler, with both handles fired
  afterwards: only the second callback runs.
\<close>

theorem C7_witness:
  "js ''warp'' \<noteq> []
   \<and> fired (sched_run
        (snd (scheduleDelayed (2::nat) 50 (js ''warp'')
           (snd (scheduleDelayed (1::nat) 100 (js ''warp'') (sched_run scheduler_init [])))))
        [Fire 1, Fire 2]) = [(2, 2)]
   \<and> 1 \<notin> fst ` set (fired (sched_run
        (snd (scheduleDelayed (2::nat) 50 (js ''warp'')
           (snd (scheduleDelayed (1::nat) 100 (js ''warp'') (sched_run scheduler_init [])))))
        [Fire 1, Fire 2]))"
  using C7_replaced_task_never_runs [of "js ''warp''" "[]" "1::nat" 100 2 50 "[Fire 1, Fire 2]"]
  by (simp add: js_def sched_run_def scheduler_init_def scheduleDelayed_def cancelByTag_def
      clearTimeout_def fire_def Let_def AList.update.simps AList.delete_eq)

section \<open>Properties of the command registry\<close>




lemma trimStart_hd: "trimStart s \<noteq> [] \<Longrightarrow> \<not> isWhiteSpace (hd (trimStart s))"
  unfolding trimStart_def by (simp add: hd_dropWhile)
















section \<open>Properties of the variant decoder\<close>

lemma parseEntry_None_iff: "parseEntry rt rest = None \<longleftrightarrow> malformed rest"
  unfolding parseEntry_def malformed_def known_tag_def payload_size_def Let_def
    FLOAT_def STRING_def VEC2_def VEC3_def UNSIGNED_def SIGNED_def
  by auto

lemma parseEntries_None_step:
  "parseEntry rt rest = None \<Longrightarrow> parseEntries rt (Suc n) rest acc = None"
  by simp

lemma parseEntries_malformed:
  assumes "k < n" and "entry_rest rt k rest = Some r" and "malformed r"
  shows "parseEntries rt n rest acc = None"
  using assms
proof (induction k arbitrary: n rest acc)
  case 0
  then obtain m where n: "n = Suc m" by (cases n) auto
  from 0 have "parseEntry rt rest = None" by (simp add: parseEntry_None_iff)
  with n show ?case by simp
next
  case (Suc k)
  then obtain m where n: "n = Suc m" and km: "k < m" by (cases n) auto
  show ?case
  proof (cases "parseEntry rt rest")
    case None
    with n show ?thesis by simp
  next
    case (Some p)
    obtain e rest' where p: "p = (e, rest')" by (cases p)
    from Suc.prems(2) Some p have "entry_rest rt k rest' = Some r" by simp
    from Suc.IH [OF km this Suc.prems(3)] have "parseEntries rt m rest' (acc @ [e]) = None" .
    with Some p n show ?thesis by simp
  qed
qed

lemma parseEntries_None_malformed:
  assumes "parseEntries rt n rest acc = None"
  shows "\<exists>k r. k < n \<and> entry_rest rt k rest = Some r \<and> malformed r"
  using assms
proof (induction n arbitrary: rest acc)
  case 0
  then show ?case by simp
next
  case (Suc n)
  show ?case
  proof (cases "parseEntry rt rest")
    case None
    then have "entry_rest rt 0 rest = Some rest \<and> malformed rest"
      by (simp add: parseEntry_None_iff)
    then show ?thesis by blast
  next
    case (Some p)
    obtain e rest' where p: "p = (e, rest')" by (cases p)
    with Some Suc.prems have "parseEntries rt n rest' (acc @ [e]) = None" by simp
    from Suc.IH [OF this] obtain k r where "k < n" "entry_rest rt k rest' = Some r" "malformed r"
      by blast
    with Some p have "Suc k < Suc n \<and> entry_rest rt (Suc k) rest = Some r \<and> malformed r" by simp
    then show ?thesis by blast
  qed
qed

lemma parseEntries_length:
  "parseEntries rt n rest acc = Some es \<Longrightarrow> length es = length acc + n"
proof (induction n arbitrary: rest acc)
  case 0
  then show ?case by simp
next
  case (Suc n)
  then show ?case by (auto split: option.splits)
qed

text \<open>
  Claim C8: in a non-empty extra buffer, if the walk reaches a declared entry (one of
  the first \<open>count\<close>) that is malformed, that is, whose header, payload or string
  bytes would extend past the end of the buffer or whose type tag is not one of
  FLOAT, STRING, VEC2, VEC3, UNSIGNED, SIGNED, then \<open>parseVariantEntries\<close> returns
  \<open>null\<close> and \<open>parseVariantArgs\<close> returns the empty list: nothing of the entries read
  before is kept. (An entry the walk does not reach lies behind a malformed one.)
\<close>

theorem C8_malformed_fails_whole_buffer:
  assumes "extraBuffer \<noteq> []"
    and "k < unat (hd extraBuffer)"
    and "entry_rest rt k (tl extraBuffer) = Some rest"
    and "malformed rest"
  shows "parseVariantEntries rt extraBuffer = None \<and> parseVariantArgs rt extraBuffer = []"
proof -
  have "parseEntries rt (unat (hd extraBuffer)) (tl extraBuffer) [] = None"
    using assms(2-4) by (rule parseEntries_malformed)
  with assms(1) have "parseVariantEntries rt extraBuffer = None"
    by (simp add: parseVariantEntries_def Let_def)
  then show ?thesis by (simp add: parseVariantArgs_def)
qed

text \<open>
  The theorem on a buffer that declares two entries, a well-formed UNSIGNED and then
  an entry with the unknown tag 7.
\<close>

theorem C8_witness:
  "[2, 0, 5, 1, 0, 0, 0, 1, 7] \<noteq> ([] :: buffer)
   \<and> (1::nat) < unat (hd ([2, 0, 5, 1, 0, 0, 0, 1, 7] :: buffer))
   \<and> entry_rest example_runtime 1 (tl [2, 0, 5, 1, 0, 0, 0, 1, 7]) = Some [1, 7]
   \<and> malformed [1, 7]
   \<and> parseVariantEntries example_runtime [2, 0, 5, 1, 0, 0, 0, 1, 7] = None
   \<and> parseVariantArgs example_runtime [2, 0, 5, 1, 0, 0, 0, 1, 7] = []"
proof -
  have 1: "[2, 0, 5, 1, 0, 0, 0, 1, 7] \<noteq> ([] :: buffer)" by simp
  have 2: "(1::nat) < unat (hd ([2, 0, 5, 1, 0, 0, 0, 1, 7] :: buffer))" by simp
  have 3: "entry_rest example_runtime 1 (tl [2, 0, 5, 1, 0, 0, 0, 1, 7]) = Some [1, 7]"
    by (simp add: parseEntry_def Let_def FLOAT_def STRING_def VEC2_def VEC3_def UNSIGNED_def SIGNED_def)
  have 4: "malformed [1, 7]"
    by (simp add: malformed_def known_tag_def FLOAT_def STRING_def VEC2_def VEC3_def UNSIGNED_def SIGNED_def)
  from C8_malformed_fails_whole_buffer [OF 1 2 3 4] 1 2 3 4 show ?thesis by simp
qed

section \<open>Properties of the variant encoder\<close>

lemma readUInt32LE_writeUInt32LE: "readUInt32LE (writeUInt32LE v @ rest) = v"
  unfolding readUInt32LE_def writeUInt32LE_def
  apply simp
  apply (rule bit_word_eqI)
  subgoal for n
    apply (cases "n < 8"; cases "n < 16"; cases "n < 24")
    apply (auto simp: bit_simps)
    done
  done

lemma length_writeUInt32LE: "length (writeUInt32LE v) = 4"
  by (simp add: writeUInt32LE_def)

lemma readUInt32LE_append:
  "4 \<le> length a \<Longrightarrow> readUInt32LE (a @ b) = readUInt32LE a"
  by (auto simp: readUInt32LE_def nth_append)

lemma uint_u32: "0 \<le> i \<Longrightarrow> i \<le> 0xffffffff \<Longrightarrow> uint (word_of_int i :: 32 word) = i"
  by (simp add: uint_word_of_int take_bit_int_eq_self)

lemma sint_i32: "- 0x80000000 \<le> i \<Longrightarrow> i \<le> 0x7fffffff \<Longrightarrow> sint (word_of_int i :: 32 word) = i"
  by (simp add: sint_sbintrunc' signed_take_bit_int_eq_self)

lemma unat_length_u32:
  "int n \<le> UINT32_MAX \<Longrightarrow> unat (of_nat n :: 32 word) = n"
  by (simp add: unat_of_nat UINT32_MAX_def)







text \<open>the length of the decoded argument array\<close>

lemma length_array_set: "length (array_set xs i v) = max (length xs) (Suc i)"
  by (auto simp: array_set_def)

lemma length_foldl_array_set:
  "length (foldl (\<lambda>args e. array_set args (unat (e_index e)) (e_value e)) acc es)
     \<le> max (length acc) 256"
proof (induction es arbitrary: acc)
  case Nil
  then show ?case by simp
next
  case (Cons e es)
  have "unat (e_index e) < 256" using unsigned_less [of "e_index e", where ?'a = nat] by simp
  then have "max (length (array_set acc (unat (e_index e)) (e_value e))) 256 = max (length acc) 256"
    by (simp add: length_array_set)
  with Cons.IH [of "array_set acc (unat (e_index e)) (e_value e)"] show ?case by simp
qed

lemma length_parseVariantArgs: "length (parseVariantArgs rt buf) \<le> 256"
  using length_foldl_array_set [of "[]"]
  by (auto simp: parseVariantArgs_def split: option.splits)

lemma parseVariantArgs_count_zero: "parseVariantArgs rt (0 # body) = []"
  by (simp add: parseVariantArgs_def parseVariantEntries_def)

lemma encodeVariantArgs_Inr:
  "encodeVariantArgs rt xs = Inr buf \<Longrightarrow>
     \<exists>body. encodeLoop rt 0 xs = Inr body \<and> buf = of_nat (length xs) # body"
  by (auto simp: encodeVariantArgs_def split: sum.splits)

lemma decode_long_list:
  assumes "encodeVariantArgs rt xs = Inr buf" and "255 < length xs"
  shows "length (parseVariantArgs rt buf) \<noteq> length xs"
proof (cases "length xs = 256")
  case True
  from encodeVariantArgs_Inr [OF assms(1)] True obtain body where "buf = 0 # body" by auto
  then have "parseVariantArgs rt buf = []" by (simp add: parseVariantArgs_count_zero)
  with True show ?thesis by simp
next
  case False
  with assms(2) have "256 < length xs" by simp
  with length_parseVariantArgs [of rt buf] show ?thesis by simp
qed

text \<open>
  Claim C10: the leading byte written by \<open>encodeVariantArgs\<close> is the length of the
  argument list modulo 256; for a list of more than 255 entries it differs from the
  length, and decoding the buffer does not give the list back.
\<close>

theorem C10_count_byte_wraps:
  assumes "encodeVariantArgs rt xs = Inr buf"
  shows "hd buf = of_nat (length xs)
         \<and> unat (hd buf) = length xs mod 256
         \<and> (255 < length xs \<longrightarrow>
              unat (hd buf) \<noteq> length xs
              \<and> length (parseVariantArgs rt buf) \<noteq> length xs
              \<and> parseVariantArgs rt buf \<noteq> xs)"
proof -
  from encodeVariantArgs_Inr [OF assms] obtain body where buf: "buf = of_nat (length xs) # body"
    by blast
  have 1: "hd buf = of_nat (length xs)" by (simp add: buf)
  have 2: "unat (hd buf) = length xs mod 256" by (simp add: buf unat_of_nat)
  have 3: "255 < length xs \<longrightarrow> unat (hd buf) \<noteq> length xs"
  proof
    assume "255 < length xs"
    moreover have "length xs mod 256 < 256" by simp
    ultimately show "unat (hd buf) \<noteq> length xs" unfolding 2 by linarith
  qed
  have 4: "255 < length xs \<longrightarrow> length (parseVariantArgs rt buf) \<noteq> length xs"
    using decode_long_list [OF assms] by blast
  then have 5: "255 < length xs \<longrightarrow> parseVariantArgs rt buf \<noteq> xs" by auto
  from 1 2 3 4 5 show ?thesis by blast
qed


text \<open>reading back what the encoder wrote\<close>

lemma drop_writeUInt32LE: "drop 4 (writeUInt32LE w @ x) = x"
  by (simp add: length_writeUInt32LE)

lemma take_writeUInt32LE: "take 4 (writeUInt32LE w @ x) = writeUInt32LE w"
  by (simp add: length_writeUInt32LE)

lemma tags_distinct:
  "STRING \<noteq> FLOAT" "VEC2 \<noteq> FLOAT" "VEC2 \<noteq> STRING" "VEC3 \<noteq> FLOAT" "VEC3 \<noteq> STRING"
  "VEC3 \<noteq> VEC2" "UNSIGNED \<noteq> FLOAT" "UNSIGNED \<noteq> STRING" "UNSIGNED \<noteq> VEC2" "UNSIGNED \<noteq> VEC3"
  "SIGNED \<noteq> FLOAT" "SIGNED \<noteq> STRING" "SIGNED \<noteq> VEC2" "SIGNED \<noteq> VEC3" "SIGNED \<noteq> UNSIGNED"
  by (simp_all add: FLOAT_def STRING_def VEC2_def VEC3_def UNSIGNED_def SIGNED_def)

lemma take_string_entry:
  "take (6 + length b) (ib # t # writeUInt32LE w @ b @ rest) = ib # t # writeUInt32LE w @ b"
proof -
  have "6 + length b = Suc (Suc (4 + length b))" by simp
  then show ?thesis by (simp only: take_Suc_Cons) (simp add: length_writeUInt32LE)
qed

lemma parseEntry_string:
  assumes "int (length b) \<le> UINT32_MAX"
  shows "parseEntry rt (ib # STRING # writeUInt32LE (of_nat (length b)) @ b @ rest) =
           Some (\<lparr>e_index = ib, e_type = STRING, e_value = VStr (utf8_decode rt b),
                   e_encoded = Some (ib # STRING # writeUInt32LE (of_nat (length b)) @ b)\<rparr>, rest)"
  using assms
  by (simp add: parseEntry_def Let_def tags_distinct length_writeUInt32LE
      readUInt32LE_writeUInt32LE unat_length_u32 take_string_entry)

lemma parseEntry_unsigned:
  "parseEntry rt (ib # UNSIGNED # writeUInt32LE w @ rest) =
     Some (\<lparr>e_index = ib, e_type = UNSIGNED, e_value = VNum (JInt (uint w)),
             e_encoded = Some (ib # UNSIGNED # writeUInt32LE w)\<rparr>, rest)"
  by (simp add: parseEntry_def Let_def tags_distinct length_writeUInt32LE readUInt32LE_writeUInt32LE)

lemma parseEntry_signed:
  "parseEntry rt (ib # SIGNED # writeUInt32LE w @ rest) =
     Some (\<lparr>e_index = ib, e_type = SIGNED, e_value = VNum (JInt (sint w)),
             e_encoded = Some (ib # SIGNED # writeUInt32LE w)\<rparr>, rest)"
  by (simp add: parseEntry_def Let_def tags_distinct length_writeUInt32LE readUInt32LE_writeUInt32LE)

lemma parseEntry_float:
  "parseEntry rt (ib # FLOAT # writeUInt32LE w @ rest) =
     Some (\<lparr>e_index = ib, e_type = FLOAT, e_value = VNum (fromFloat32 rt w),
             e_encoded = Some (ib # FLOAT # writeUInt32LE w)\<rparr>, rest)"
  by (simp add: parseEntry_def Let_def tags_distinct length_writeUInt32LE readUInt32LE_writeUInt32LE)

lemma parseEntry_vec2:
  "parseEntry rt (ib # VEC2 # writeUInt32LE w1 @ writeUInt32LE w2 @ rest) =
     Some (\<lparr>e_index = ib, e_type = VEC2, e_value = VArr [fromFloat32 rt w1, fromFloat32 rt w2],
             e_encoded = Some (ib # VEC2 # writeUInt32LE w1 @ writeUInt32LE w2)\<rparr>, rest)"
  by (simp add: parseEntry_def Let_def tags_distinct length_writeUInt32LE readUInt32LE_writeUInt32LE)

lemma parseEntry_vec3:
  "parseEntry rt (ib # VEC3 # writeUInt32LE w1 @ writeUInt32LE w2 @ writeUInt32LE w3 @ rest) =
     Some (\<lparr>e_index = ib, e_type = VEC3,
             e_value = VArr [fromFloat32 rt w1, fromFloat32 rt w2, fromFloat32 rt w3],
             e_encoded = Some (ib # VEC3 # writeUInt32LE w1 @ writeUInt32LE w2 @ writeUInt32LE w3)\<rparr>, rest)"
  by (simp add: parseEntry_def Let_def tags_distinct length_writeUInt32LE readUInt32LE_writeUInt32LE)

lemma parseEntry_encodeValue:
  assumes "roundtrip_entry rt v"
  shows "\<exists>chunk. encodeValue rt v = Inr chunk
           \<and> (\<forall>ib rest. parseEntry rt (ib # chunk @ rest) =
                  Some (\<lparr>e_index = ib, e_type = hd chunk, e_value = reread rt v,
                          e_encoded = Some (ib # chunk)\<rparr>, rest))"
proof (cases v)
  case (VStr s)
  with assms have "int (length (utf8_encode rt s)) \<le> UINT32_MAX" by (simp add: roundtrip_entry_def)
  with VStr show ?thesis
    by (simp add: encodeValue_def stringChunk_def reread_def parseEntry_string)
next
  case (VNum x)
  show ?thesis
  proof (cases x)
    case (JInt i)
    with VNum assms have r: "INT32_MIN \<le> i" "i \<le> UINT32_MAX" by (simp_all add: roundtrip_entry_def)
    show ?thesis
    proof (cases "0 \<le> i")
      case True
      with r VNum JInt show ?thesis
        by (simp add: encodeValue_def reread_def parseEntry_unsigned uint_u32 UINT32_MAX_def)
    next
      case False
      with r VNum JInt show ?thesis
        by (simp add: encodeValue_def reread_def parseEntry_signed sint_i32
            UINT32_MAX_def INT32_MIN_def INT32_MAX_def)
    qed
  next
    case (JFrac f)
    with VNum show ?thesis by (simp add: encodeValue_def reread_def parseEntry_float)
  qed (use VNum assms in \<open>simp_all add: roundtrip_entry_def\<close>)
next
  case (VArr xs)
  with assms consider a b where "xs = [a, b]" | a b c where "xs = [a, b, c]"
    by (auto simp: roundtrip_entry_def length_Suc_conv numeral_2_eq_2 numeral_3_eq_3)
  then show ?thesis
  proof cases
    case 1
    with VArr show ?thesis by (simp add: encodeValue_def reread_def parseEntry_vec2)
  next
    case 2
    with VArr show ?thesis by (simp add: encodeValue_def reread_def parseEntry_vec3)
  qed
next
  case VUndefined
  with assms show ?thesis by (simp add: roundtrip_entry_def)
qed


lemma parseEntries_acc:
  "parseEntries rt n rest acc = Some es \<Longrightarrow> \<exists>es'. es = acc @ es' \<and> length es' = n
     \<and> (\<forall>acc'. parseEntries rt n rest acc' = Some (acc' @ es'))"
proof (induction n arbitrary: rest acc es)
  case 0
  then show ?case by simp
next
  case (Suc n)
  from Suc.prems obtain e rest' where p: "parseEntry rt rest = Some (e, rest')"
    and r: "parseEntries rt n rest' (acc @ [e]) = Some es"
    by (auto split: option.splits)
  from Suc.IH [OF r] obtain es' where es: "es = (acc @ [e]) @ es'" and l: "length es' = n"
    and a: "\<forall>acc'. parseEntries rt n rest' acc' = Some (acc' @ es')" by blast
  have "\<forall>acc'. parseEntries rt (Suc n) rest acc' = Some (acc' @ e # es')"
    using p a by simp
  with es l show ?case by (intro exI [of _ "e # es'"]) simp
qed





lemma encodeLoop_succeeds:
  "\<forall>v \<in> set vs. roundtrip_entry rt v \<Longrightarrow> \<exists>chunks. encodeLoop rt i vs = Inr chunks"
proof (induction vs arbitrary: i)
  case Nil
  then show ?case by simp
next
  case (Cons v vs)
  from Cons.prems have "roundtrip_entry rt v" by simp
  from parseEntry_encodeValue [OF this] obtain chunk where "encodeValue rt v = Inr chunk" by blast
  moreover from Cons obtain chunks where "encodeLoop rt (Suc i) vs = Inr chunks" by fastforce
  ultimately show ?case by simp
qed

lemma encodeVariantArgs_succeeds:
  assumes "\<forall>v \<in> set vs. roundtrip_entry rt v"
  shows "encodeVariantArgs rt vs = Inr (projr (encodeVariantArgs rt vs))"
proof -
  from encodeLoop_succeeds [OF assms] obtain chunks where "encodeLoop rt 0 vs = Inr chunks" by blast
  then show ?thesis by (simp add: encodeVariantArgs_def)
qed

lemma zeros_roundtrip_entry: "\<forall>v \<in> set (replicate n (VNum (JInt 0))). roundtrip_entry rt v"
  by (simp add: roundtrip_entry_def INT32_MIN_def UINT32_MAX_def)




text \<open>
  The theorem on a list of 256 zeros.
\<close>

theorem C10_witness:
  "255 < length (replicate 256 (VNum (JInt 0)) :: unit jsval list)
   \<and> unat (hd (projr (encodeVariantArgs example_runtime (replicate 256 (VNum (JInt 0)))))) = 0
   \<and> parseVariantArgs example_runtime
        (projr (encodeVariantArgs example_runtime (replicate 256 (VNum (JInt 0)))))
       \<noteq> replicate 256 (VNum (JInt 0))"
proof -
  let ?xs = "replicate 256 (VNum (JInt 0)) :: unit jsval list"
  have e: "encodeVariantArgs example_runtime ?xs = Inr (projr (encodeVariantArgs example_runtime ?xs))"
    by (rule encodeVariantArgs_succeeds) (rule zeros_roundtrip_entry)
  have l: "255 < length ?xs" by simp
  from C10_count_byte_wraps [OF e] l show ?thesis by simp
qed

section \<open>Properties of the bootstrap rewrite\<close>






















lemma tp_contains_Cons: "tp_contains (e # es) k \<longleftrightarrow> fst e = k \<or> tp_contains es k"
  by (auto simp: tp_contains_def)

























lemma tokens:
  "tokenize (js ''#maint|hello'') bar True = [js ''#maint'', js ''hello'']"
  "tokenize (js ''server|a'') bar True = [js ''server'', js ''a'']"
  "tokenize (js ''port|1'') bar True = [js ''port'', js ''1'']"
  "tokenize (js ''type|1'') bar True = [js ''type'', js ''1'']"
  "tokenize (js ''maint|down'') bar True = [js ''maint'', js ''down'']"
  "tokenize [] bar True = []"
  by (simp_all add: tokenize_def js_def bar_def)





















section \<open>Properties of the OnSendToServer rewrite\<close>

lemma readUInt32LE_cong: "take 4 a = take 4 b \<Longrightarrow> readUInt32LE a = readUInt32LE b"
proof -
  assume t: "take 4 a = take 4 b"
  have "a ! k = b ! k" if "k < 4" for k
    using that t by (metis nth_take)
  then show ?thesis by (simp add: readUInt32LE_def)
qed

lemma readUInt32LE_take_append:
  "4 \<le> k \<Longrightarrow> k \<le> length x \<Longrightarrow> readUInt32LE (take k x @ r) = readUInt32LE x"
  by (rule readUInt32LE_cong) simp

lemma readUInt32LE_drop_take_append:
  "j + 4 \<le> k \<Longrightarrow> k \<le> length x \<Longrightarrow> readUInt32LE (drop j (take k x @ r)) = readUInt32LE (drop j x)"
  by (rule readUInt32LE_cong) (simp add: take_drop min_def)

lemma readUInt32LE_drop_take_append':
  "j + 4 \<le> k \<Longrightarrow> k \<le> length x \<Longrightarrow> readUInt32LE (drop j (take k x) @ r) = readUInt32LE (drop j x)"
  by (rule readUInt32LE_cong) (simp add: take_drop min_def)

lemma take_header_plus: "take (6 + n) (i # t # body) = i # t # take (4 + n) body"
proof -
  have "6 + n = Suc (Suc (4 + n))" by simp
  then show ?thesis by (simp only: take_Suc_Cons)
qed

lemma parseEntry_slice:
  assumes "parseEntry rt rest = Some (e, rest')"
  shows "\<exists>enc. e_encoded e = Some enc \<and> rest = enc @ rest' \<and> reads_as rt enc e"
proof -
  from assms have len: "2 \<le> length rest" by (auto simp: parseEntry_def split: if_splits)
  then obtain i t body where rest: "rest = i # t # body"
    by (cases rest; cases "tl rest") auto
  consider (float) "t = FLOAT" | (string) "t = STRING" | (vec2) "t = VEC2" | (vec3) "t = VEC3"
    | (unsigned) "t = UNSIGNED" | (signed) "t = SIGNED"
    using assms rest by (auto simp: parseEntry_def Let_def split: if_splits)
  then show ?thesis
  proof cases
    case float
    with assms rest have b: "4 \<le> length body"
      and e: "e = \<lparr>e_index = i, e_type = t, e_value = VNum (fromFloat32 rt (readUInt32LE body)),
                    e_encoded = Some (i # t # take 4 body)\<rparr>"
      and r: "rest' = drop 4 body"
      by (auto simp: parseEntry_def Let_def split: if_splits)
    have "reads_as rt (i # t # take 4 body) e"
      using b float by (simp add: reads_as_def parseEntry_def Let_def e readUInt32LE_take_append)
    with e r rest show ?thesis by simp
  next
    case unsigned
    with assms rest have b: "4 \<le> length body"
      and e: "e = \<lparr>e_index = i, e_type = t, e_value = VNum (JInt (uint (readUInt32LE body))),
                    e_encoded = Some (i # t # take 4 body)\<rparr>"
      and r: "rest' = drop 4 body"
      by (auto simp: parseEntry_def Let_def tags_distinct split: if_splits)
    have "reads_as rt (i # t # take 4 body) e"
      using b unsigned
      by (simp add: reads_as_def parseEntry_def Let_def e readUInt32LE_take_append tags_distinct)
    with e r rest show ?thesis by simp
  next
    case signed
    with assms rest have b: "4 \<le> length body"
      and e: "e = \<lparr>e_index = i, e_type = t, e_value = VNum (JInt (sint (readUInt32LE body))),
                    e_encoded = Some (i # t # take 4 body)\<rparr>"
      and r: "rest' = drop 4 body"
      by (auto simp: parseEntry_def Let_def tags_distinct split: if_splits)
    have "reads_as rt (i # t # take 4 body) e"
      using b signed
      by (simp add: reads_as_def parseEntry_def Let_def e readUInt32LE_take_append tags_distinct)
    with e r rest show ?thesis by simp
  next
    case vec2
    with assms rest have b: "8 \<le> length body"
      and e: "e = \<lparr>e_index = i, e_type = t,
                    e_value = VArr [fromFloat32 rt (readUInt32LE body),
                                    fromFloat32 rt (readUInt32LE (drop 4 body))],
                    e_encoded = Some (i # t # take 8 body)\<rparr>"
      and r: "rest' = drop 8 body"
      by (auto simp: parseEntry_def Let_def tags_distinct split: if_splits)
    have "reads_as rt (i # t # take 8 body) e"
      using b vec2
      by (simp add: reads_as_def parseEntry_def Let_def e readUInt32LE_take_append
          readUInt32LE_drop_take_append readUInt32LE_drop_take_append' tags_distinct)
    with e r rest show ?thesis by simp
  next
    case vec3
    with assms rest have b: "12 \<le> length body"
      and e: "e = \<lparr>e_index = i, e_type = t,
                    e_value = VArr [fromFloat32 rt (readUInt32LE body),
                                    fromFloat32 rt (readUInt32LE (drop 4 body)),
                                    fromFloat32 rt (readUInt32LE (drop 8 body))],
                    e_encoded = Some (i # t # take 12 body)\<rparr>"
      and r: "rest' = drop 12 body"
      by (auto simp: parseEntry_def Let_def tags_distinct split: if_splits)
    have "reads_as rt (i # t # take 12 body) e"
      using b vec3
      by (simp add: reads_as_def parseEntry_def Let_def e readUInt32LE_take_append
          readUInt32LE_drop_take_append readUInt32LE_drop_take_append' tags_distinct)
    with e r rest show ?thesis by simp
  next
    case string
    define n where "n = unat (readUInt32LE body)"
    define w where "w = take 4 body"
    define str where "str = take n (drop 4 body)"
    from string assms rest have b: "4 \<le> length body" and l: "n \<le> length (drop 4 body)"
      and e0: "e = \<lparr>e_index = i, e_type = t,
                    e_value = VStr (utf8_decode rt (take n (drop 4 body))),
                    e_encoded = Some (i # t # take (4 + n) body)\<rparr>"
      and r: "rest' = drop n (drop 4 body)"
      by (auto simp: parseEntry_def Let_def tags_distinct n_def take_header_plus split: if_splits)
    have lw: "length w = 4" using b by (simp add: w_def)
    have ls: "length str = n" using l by (simp add: str_def)
    have tk: "take (4 + n) body = w @ str"
      unfolding w_def str_def by (simp add: take_add)
    have body: "body = w @ str @ rest'"
    proof -
      have "body = take 4 body @ (take n (drop 4 body) @ drop n (drop 4 body))"
        by (simp only: append_take_drop_id)
      then show ?thesis unfolding w_def str_def r .
    qed
    have e: "e = \<lparr>e_index = i, e_type = STRING, e_value = VStr (utf8_decode rt str),
                  e_encoded = Some (i # STRING # w @ str)\<rparr>"
      using e0 string by (simp add: tk str_def)
    have rd: "readUInt32LE (w @ x) = readUInt32LE body" for x
      by (rule readUInt32LE_cong) (use b in \<open>simp add: w_def\<close>)
    have "parseEntry rt ((i # STRING # w @ str) @ x) = Some (e, x)" for x
    proof -
      have 1: "unat (readUInt32LE (w @ str @ x)) = n" by (simp add: rd n_def)
      have 2: "take (6 + n) (i # STRING # w @ str @ x) = i # STRING # w @ str"
        by (simp add: take_header_plus lw ls)
      show ?thesis
        by (simp add: parseEntry_def Let_def tags_distinct lw ls 1 2 e)
    qed
    then have "reads_as rt (i # STRING # w @ str) e" by (simp add: reads_as_def)
    moreover have "rest = (i # STRING # w @ str) @ rest'"
      using rest body string by simp
    ultimately show ?thesis using e by simp
  qed
qed

end
